theory Spec2Isabelle
  imports Complex_Main "HOL-Library.Word" "HOL-Library.Log_Nat"
begin

section \<open>JavaScript values used by the wallet core\<close>

text \<open>
  The code is JavaScript. A thrown exception is a value \<open>Inl e\<close> of a sum type, a normal
  return is \<open>Inr v\<close>. A JavaScript number is \<open>NaN\<close>, an infinity, or a finite double, kept
  as the rational it denotes; the negative zero is not told from zero (no function below
  separates them). The arithmetic of the code is the arithmetic of doubles: \<open>mulN\<close>,
  \<open>divN\<close>, \<open>addN\<close> and \<open>subN\<close> round the exact result to the nearest double (\<open>double\<close>,
  below). \<open>toString(16)\<close> and \<open>parseInt\<close> are kept exact: they are the code's on the integers
  of magnitude up to \<open>2^53\<close>, which have at most 14 hexadecimal digits.
  Strings are lists of characters with codes below 256. Comparisons and arithmetic
  (\<open>lessN\<close>, \<open>leqN\<close>, \<open>mulN\<close>, \<open>divN\<close>) give \<open>false\<close> and \<open>NaN\<close> on \<open>NaN\<close>.
\<close>

datatype error = Error string | TypeError

datatype number = NaN | Num rat | Infinity | MinusInfinity

fun bindE :: "error + 'a \<Rightarrow> ('a \<Rightarrow> error + 'b) \<Rightarrow> error + 'b" where
  "bindE (Inl e) f = Inl e"
| "bindE (Inr x) f = f x"

subsection \<open>\<open>Number.prototype.toString(16)\<close> and \<open>parseInt(s, 16)\<close>\<close>

definition hexdigit :: "nat \<Rightarrow> char" where
  "hexdigit d = ''0123456789abcdef'' ! d"

fun hexstr :: "nat \<Rightarrow> string" where
  "hexstr n = (if n < 16 then [hexdigit n] else hexstr (n div 16) @ [hexdigit (n mod 16)])"

text \<open>The hexadecimal digits after the point of a fraction \<open>0 \<le> f < 1\<close> with a finite expansion
  (every double has one, of at most 269 digits).\<close>

fun fracstr :: "nat \<Rightarrow> rat \<Rightarrow> string" where
  "fracstr 0 f = []"
| "fracstr (Suc k) f =
     (if f = 0 then []
      else hexdigit (nat \<lfloor>f * 16\<rfloor>) # fracstr k (f * 16 - of_int \<lfloor>f * 16\<rfloor>))"

definition absstr :: "rat \<Rightarrow> string" where
  "absstr q = hexstr (nat \<lfloor>q\<rfloor>) @
     (if q = of_int \<lfloor>q\<rfloor> then [] else CHR ''.'' # fracstr 269 (q - of_int \<lfloor>q\<rfloor>))"

fun toString16 :: "number \<Rightarrow> string" where
  "toString16 NaN = ''NaN''"
| "toString16 (Num q) = (if q < 0 then CHR ''-'' # absstr (- q) else absstr q)"
| "toString16 Infinity = ''Infinity''"
| "toString16 MinusInfinity = ''-Infinity''"

definition digit16 :: "char \<Rightarrow> nat option" where
  "digit16 c = (let n = (of_char c :: nat) in
     if 48 \<le> n \<and> n \<le> 57 then Some (n - 48)
     else if 97 \<le> n \<and> n \<le> 102 then Some (n - 87)
     else if 65 \<le> n \<and> n \<le> 70 then Some (n - 55)
     else None)"

definition isWhiteSpace :: "char \<Rightarrow> bool" where
  "isWhiteSpace c = ((of_char c :: nat) \<in> {9, 10, 11, 12, 13, 32, 160})"

definition stripSign :: "string \<Rightarrow> int \<times> string" where
  "stripSign s = (case s of
       c # r \<Rightarrow> if c = CHR ''-'' then (- 1, r) else if c = CHR ''+'' then (1, r) else (1, s)
     | [] \<Rightarrow> (1, s))"

definition stripPrefix :: "string \<Rightarrow> string" where
  "stripPrefix s = (case s of
       c # x # r \<Rightarrow> if c = CHR ''0'' \<and> (x = CHR ''x'' \<or> x = CHR ''X'') then r else s
     | _ \<Rightarrow> s)"

definition digitsValue :: "string \<Rightarrow> nat" where
  "digitsValue ds = foldl (\<lambda>a c. 16 * a + the (digit16 c)) 0 ds"

text \<open>\<open>parseInt(s, 16)\<close>: leading white space is skipped, then an optional sign, then an
  optional \<open>0x\<close>; the longest run of hexadecimal digits is the value, and \<open>NaN\<close> when that
  run is empty.\<close>

definition parseInt :: "string \<Rightarrow> number" where
  "parseInt s =
     (let (sign, s2) = stripSign (dropWhile isWhiteSpace s);
          ds = takeWhile (\<lambda>c. digit16 c \<noteq> None) (stripPrefix s2)
      in if ds = [] then NaN else Num (of_int (sign * int (digitsValue ds))))"

subsection \<open>utils.js\<close>

text \<open>\<open>reverseHex\<close>: the loop runs \<open>i = length - 2, length - 4, ..., 0\<close> and appends
  \<open>hex.substr(i, 2)\<close>; the counter \<open>k\<close> below is \<open>i / 2 + 1\<close>.\<close>

primrec reverseHex_loop :: "string \<Rightarrow> nat \<Rightarrow> string" where
  "reverseHex_loop hex 0 = []"
| "reverseHex_loop hex (Suc k) = take 2 (drop (2 * k) hex) @ reverseHex_loop hex k"

definition reverseHex :: "string \<Rightarrow> error + string" where
  "reverseHex hex =
     (if length hex mod 2 \<noteq> 0 then Inl (Error (''Incorrect Length: '' @ hex))
      else Inr (reverseHex_loop hex (length hex div 2)))"

fun hexstring2ab :: "string \<Rightarrow> number list" where
  "hexstring2ab (a # b # str) = parseInt [a, b] # hexstring2ab str"
| "hexstring2ab str = []"

text \<open>\<open>ab2hexstring\<close>: \<open>byte2hex\<close> is the body of its loop, the text of one entry.\<close>

definition byte2hex :: "number \<Rightarrow> string" where
  "byte2hex x = (let str = toString16 x in
     if length str = 0 then ''00'' else if length str = 1 then CHR ''0'' # str else str)"

definition ab2hexstring :: "number list \<Rightarrow> string" where
  "ab2hexstring arr = concat (map byte2hex arr)"

definition num2hexstring :: "number \<Rightarrow> nat \<Rightarrow> string" where
  "num2hexstring num sz =
     (let hexstring = toString16 num in
      if length hexstring mod sz = 0 then hexstring
      else drop (length hexstring) (replicate sz CHR ''0'' @ hexstring))"

fun lessN :: "number \<Rightarrow> rat \<Rightarrow> bool" where
  "lessN NaN b = False"
| "lessN (Num a) b = (a < b)"
| "lessN Infinity b = False"
| "lessN MinusInfinity b = True"

fun leqN :: "number \<Rightarrow> rat \<Rightarrow> bool" where
  "leqN NaN b = False"
| "leqN (Num a) b = (a \<le> b)"
| "leqN Infinity b = False"
| "leqN MinusInfinity b = True"

text \<open>
  The double nearest to a rational \<open>x\<close> (IEEE 754 binary64, round to nearest, ties to even):
  \<open>ilog2 x\<close> is \<open>\<lfloor>log\<^sub>2 x\<rfloor>\<close> for \<open>x > 0\<close>; the doubles near \<open>x\<close> are the multiples of
  \<open>2^(e - 52)\<close>, where \<open>e\<close> is \<open>ilog2 \<bar>x\<bar>\<close> and at least \<open>-1022\<close> (the subnormal range);
  \<open>roundEven\<close> rounds to the nearest integer, a half to the even one. A result of
  magnitude \<open>2^1024\<close> overflows to an infinity.
\<close>

definition roundEven :: "rat \<Rightarrow> int" where
  "roundEven t = (let f = \<lfloor>t\<rfloor>; d = t - of_int f in
     if d < 1 / 2 then f else if 1 / 2 < d then f + 1 else if even f then f else f + 1)"

definition ilog2 :: "rat \<Rightarrow> int" where
  "ilog2 x = (if 1 \<le> x then int (floorlog 2 (nat \<lfloor>x\<rfloor>)) - 1
              else - int (floorlog 2 (nat (\<lceil>1 / x\<rceil> - 1))))"

definition fl :: "rat \<Rightarrow> rat" where
  "fl x = (if x = 0 then 0 else
     let e = max (ilog2 \<bar>x\<bar>) (- 1022); q = 2 powi (e - 52)
     in sgn x * of_int (roundEven (\<bar>x\<bar> / q)) * q)"

definition double :: "rat \<Rightarrow> number" where
  "double x = (let y = fl x in
     if 2 ^ 1024 \<le> \<bar>y\<bar> then (if 0 < x then Infinity else MinusInfinity) else Num y)"

text \<open>The operators \<open>*\<close>, \<open>/\<close>, \<open>+\<close> and \<open>-\<close> with a finite right operand, as the code
  uses them.\<close>

fun divN :: "number \<Rightarrow> rat \<Rightarrow> number" where
  "divN NaN b = NaN"
| "divN (Num a) b =
     (if b = 0 then (if a = 0 then NaN else if 0 < a then Infinity else MinusInfinity)
      else double (a / b))"
| "divN Infinity b = (if b < 0 then MinusInfinity else Infinity)"
| "divN MinusInfinity b = (if b < 0 then Infinity else MinusInfinity)"

fun mulN :: "number \<Rightarrow> rat \<Rightarrow> number" where
  "mulN NaN b = NaN"
| "mulN (Num a) b = double (a * b)"
| "mulN Infinity b = (if b = 0 then NaN else if 0 < b then Infinity else MinusInfinity)"
| "mulN MinusInfinity b = (if b = 0 then NaN else if 0 < b then MinusInfinity else Infinity)"

fun addN :: "number \<Rightarrow> rat \<Rightarrow> number" where
  "addN NaN b = NaN"
| "addN (Num a) b = double (a + b)"
| "addN Infinity b = Infinity"
| "addN MinusInfinity b = MinusInfinity"

fun subN :: "number \<Rightarrow> rat \<Rightarrow> number" where
  "subN NaN b = NaN"
| "subN (Num a) b = double (a - b)"
| "subN Infinity b = Infinity"
| "subN MinusInfinity b = MinusInfinity"

text \<open>\<open>Math.round\<close> rounds a half upwards; \<open>Math.floor\<close>; truncation towards zero.\<close>

fun Math_round :: "number \<Rightarrow> number" where
  "Math_round NaN = NaN"
| "Math_round (Num q) = Num (of_int \<lfloor>q + 1 / 2\<rfloor>)"
| "Math_round Infinity = Infinity"
| "Math_round MinusInfinity = MinusInfinity"

fun Math_floor :: "number \<Rightarrow> number" where
  "Math_floor NaN = NaN"
| "Math_floor (Num q) = Num (of_int \<lfloor>q\<rfloor>)"
| "Math_floor Infinity = Infinity"
| "Math_floor MinusInfinity = MinusInfinity"

definition truncQ :: "rat \<Rightarrow> int" where
  "truncQ q = (if q \<ge> 0 then \<lfloor>q\<rfloor> else \<lceil>q\<rceil>)"

definition num2VarInt :: "number \<Rightarrow> string" where
  "num2VarInt num =
     (if lessN num 0xfd then num2hexstring num 2
      else if leqN num 0xffff then ''fd'' @ num2hexstring num 4
      else if leqN num 0xffffffff then ''fe'' @ num2hexstring num 8
      else ''ff'' @ num2hexstring num 8 @ num2hexstring (divN num (2 ^ 32)) 8)"

subsection \<open>\<open>StringStream\<close>\<close>

record StringStream =
  str :: string
  pter :: nat

definition isEmpty :: "StringStream \<Rightarrow> bool" where
  "isEmpty ss = (pter ss \<ge> length (str ss))"

definition read :: "StringStream \<Rightarrow> nat \<Rightarrow> error + (string \<times> StringStream)" where
  "read ss bytes =
     (if isEmpty ss then Inl (Error [])
      else Inr (take (bytes * 2) (drop (pter ss) (str ss)), ss\<lparr>pter := pter ss + bytes * 2\<rparr>))"

text \<open>\<open>readVarInt\<close>: \<open>readReversed ss n\<close> is \<open>parseInt(reverseHex(this.read(n)), 16)\<close>.\<close>

definition readReversed :: "StringStream \<Rightarrow> nat \<Rightarrow> error + (number \<times> StringStream)" where
  "readReversed ss bytes =
     bindE (read ss bytes) (\<lambda>(s, ss').
     bindE (reverseHex s) (\<lambda>r. Inr (parseInt r, ss')))"

definition readVarInt :: "StringStream \<Rightarrow> error + (number \<times> StringStream)" where
  "readVarInt ss =
     bindE (read ss 1) (\<lambda>(s, ss1).
       let len = parseInt s in
       if len = Num 0xfd then readReversed ss1 2
       else if len = Num 0xfe then readReversed ss1 4
       else if len = Num 0xff then readReversed ss1 8
       else Inr (len, ss1))"

definition num2fixed8 :: "number \<Rightarrow> error + string" where
  "num2fixed8 num =
     (let hexValue = toString16 (Math_round (mulN num 100000000))
      in reverseHex (drop (length hexValue) (''0000000000000000'' @ hexValue)))"

subsection \<open>GAS cost ceiling\<close>

definition D :: rat where
  "D = 100000000"

text \<open>The \<open>%\<close> of JavaScript keeps the sign of the dividend.\<close>

definition jsRem :: "rat \<Rightarrow> rat \<Rightarrow> rat" where
  "jsRem a b = a - b * of_int (truncQ (a / b))"

text \<open>\<open>fixed8GasCeil\<close> on a number: \<open>typeof fixed8GasCost === 'number'\<close> holds, and
  \<open>!fixed8GasCost\<close> is true for \<open>0\<close> and for \<open>NaN\<close>. The remainder of a finite number is
  exact. The remainder of an infinity is \<open>NaN\<close>, which differs from \<open>0\<close> and is not greater:
  the result is \<open>fixed8GasCost - NaN\<close>.\<close>

definition fixed8GasCeil :: "number \<Rightarrow> number" where
  "fixed8GasCeil fixed8GasCost =
     (case Math_round fixed8GasCost of
        NaN \<Rightarrow> Num 0
      | Num n \<Rightarrow>
          if n = 0 then Num 0
          else let remainder = jsRem n D in
            if remainder \<noteq> 0
            then (if remainder > 0 then addN (subN (Num n) remainder) D else subN (Num n) remainder)
            else Num n
      | Infinity \<Rightarrow> NaN
      | MinusInfinity \<Rightarrow> NaN)"

definition gasCostCeil :: "number \<Rightarrow> number" where
  "gasCostCeil gasCost =
     (let fixed8GasCost = fixed8GasCeil (mulN gasCost D)
      in Math_floor (divN fixed8GasCost D))"

section \<open>Transactions\<close>

text \<open>
  The files \<open>components.js\<close> and \<open>exclusive.js\<close>, which hold the serializers of the
  attributes, inputs, outputs, witnesses and of the data exclusive to a transaction type,
  are not among the sources verified here. They are parameters of the model: the two tables
  \<open>serialize\<close> and \<open>deserialize\<close> of \<open>transactions/index.js\<close>. The type \<open>'c\<close> is the
  type of the component objects (JavaScript does not tell an attribute from an input),
  \<open>'e\<close> the data exclusive to the transaction type, which \<open>Object.assign\<close> merges into
  the transaction. \<open>tx.scripts\<close> may be absent (\<open>None\<close>).
\<close>

record Witness =
  invocationScript :: string
  verificationScript :: string

record ('c, 'e) Transaction =
  type :: number
  version :: number
  attributes :: "'c list"
  inputs :: "'c list"
  outputs :: "'c list"
  scripts :: "Witness list option"
  exclusiveData :: 'e

record ('c, 'e) serialize =
  serialize_attribute :: "'c \<Rightarrow> error + string"
  serialize_input :: "'c \<Rightarrow> error + string"
  serialize_output :: "'c \<Rightarrow> error + string"
  serialize_script :: "Witness \<Rightarrow> error + string"
  serialize_exclusiveData :: "number \<Rightarrow> (('c, 'e) Transaction \<Rightarrow> error + string) option"

record ('c, 'e) deserialize =
  deserialize_attribute :: "StringStream \<Rightarrow> error + ('c \<times> StringStream)"
  deserialize_input :: "StringStream \<Rightarrow> error + ('c \<times> StringStream)"
  deserialize_output :: "StringStream \<Rightarrow> error + ('c \<times> StringStream)"
  deserialize_script :: "StringStream \<Rightarrow> error + (Witness \<times> StringStream)"
  deserialize_exclusiveData :: "number \<Rightarrow> (StringStream \<Rightarrow> error + ('e \<times> StringStream)) option"

text \<open>\<open>for (const x of xs) out += f(x)\<close>\<close>

fun appendAll :: "('a \<Rightarrow> error + string) \<Rightarrow> 'a list \<Rightarrow> string \<Rightarrow> error + string" where
  "appendAll f [] out = Inr out"
| "appendAll f (x # xs) out = bindE (f x) (\<lambda>s. appendAll f xs (out @ s))"

definition serializeTransaction ::
  "('c, 'e) serialize \<Rightarrow> ('c, 'e) Transaction \<Rightarrow> bool \<Rightarrow> error + string" where
  "serializeTransaction sz tx signed' =
     (let out = [];
          out = out @ num2hexstring (type tx) 2;
          out = out @ num2hexstring (version tx) 2
      in case serialize_exclusiveData sz (type tx) of
           None \<Rightarrow> Inl TypeError
         | Some f \<Rightarrow>
      bindE (f tx) (\<lambda>ex.
      bindE (appendAll (serialize_attribute sz) (attributes tx)
               (out @ ex @ num2VarInt (Num (of_nat (length (attributes tx)))))) (\<lambda>out.
      bindE (appendAll (serialize_input sz) (inputs tx)
               (out @ num2VarInt (Num (of_nat (length (inputs tx)))))) (\<lambda>out.
      bindE (appendAll (serialize_output sz) (outputs tx)
               (out @ num2VarInt (Num (of_nat (length (outputs tx)))))) (\<lambda>out.
      case scripts tx of
        Some ws \<Rightarrow>
          if signed' \<and> length ws > 0
          then appendAll (serialize_script sz) ws (out @ num2VarInt (Num (of_nat (length ws))))
          else Inr out
      | None \<Rightarrow> Inr out)))))"

text \<open>\<open>for (let i = 0; i < n; i++) arr.push(f(ss))\<close>: the number of rounds for a number
  \<open>n\<close>, and the loop itself, which appends to the array \<open>arr\<close>. The bounds in
  \<open>deserializeTransaction\<close> are results of \<open>readVarInt\<close>, that is of \<open>parseInt\<close> on at most
  16 digits, and never infinite (\<open>readVarInt_finite\<close> below); for \<open>Infinity\<close>, where the
  iteration has no last round, \<open>rounds\<close> is left at 0.\<close>

fun rounds :: "number \<Rightarrow> nat" where
  "rounds NaN = 0"
| "rounds (Num q) = nat \<lceil>q\<rceil>"
| "rounds Infinity = 0"
| "rounds MinusInfinity = 0"

fun pushAll :: "nat \<Rightarrow> (StringStream \<Rightarrow> error + ('a \<times> StringStream)) \<Rightarrow> 'a list \<Rightarrow> StringStream
    \<Rightarrow> error + ('a list \<times> StringStream)" where
  "pushAll 0 f arr ss = Inr (arr, ss)"
| "pushAll (Suc n) f arr ss = bindE (f ss) (\<lambda>(x, ss'). pushAll n f (arr @ [x]) ss')"

text \<open>The first loop of \<open>deserializeTransaction\<close> pushes the attributes onto
  \<open>tx.inputs\<close>, as the source does; \<open>tx.attributes\<close> stays empty.\<close>

definition deserializeTransaction ::
  "('c, 'e) deserialize \<Rightarrow> string \<Rightarrow> error + ('c, 'e) Transaction" where
  "deserializeTransaction dz data =
     (let ss = \<lparr>str = data, pter = 0\<rparr> in
      bindE (read ss 1) (\<lambda>(s, ss). let tx_type = parseInt s in
      bindE (read ss 1) (\<lambda>(s, ss). let tx_version = parseInt s in
      case deserialize_exclusiveData dz tx_type of
        None \<Rightarrow> Inl TypeError
      | Some f \<Rightarrow>
      bindE (f ss) (\<lambda>(exclusive, ss).
      bindE (readVarInt ss) (\<lambda>(attrLength, ss).
      bindE (pushAll (rounds attrLength) (deserialize_attribute dz) [] ss) (\<lambda>(tx_inputs, ss).
      bindE (readVarInt ss) (\<lambda>(inputLength, ss).
      bindE (pushAll (rounds inputLength) (deserialize_input dz) tx_inputs ss) (\<lambda>(tx_inputs, ss).
      bindE (readVarInt ss) (\<lambda>(outputLength, ss).
      bindE (pushAll (rounds outputLength) (deserialize_output dz) [] ss) (\<lambda>(tx_outputs, ss).
      bindE (if \<not> isEmpty ss
             then bindE (readVarInt ss) (\<lambda>(scriptLength, ss).
                    pushAll (rounds scriptLength) (deserialize_script dz) [] ss)
             else Inr ([], ss)) (\<lambda>(tx_scripts, ss).
      Inr \<lparr>type = tx_type, version = tx_version, attributes = [], inputs = tx_inputs,
           outputs = tx_outputs, scripts = Some tx_scripts, exclusiveData = exclusive\<rparr>)))))))))))"

section \<open>wallet.js\<close>

text \<open>
  The hash functions of CryptoJS, the base58 coder of \<open>base-x\<close> and the elliptic-curve
  operations of \<open>ecurve\<close>, \<open>bigi\<close> and \<open>elliptic\<close> are libraries; they are parameters
  of the model. \<open>'w\<close> is the type of the CryptoJS word arrays. A \<open>Buffer\<close> or
  \<open>Uint8Array\<close> is a list of bytes.
\<close>

type_synonym byte = "8 word"

record 'w crypto =
  Hex_parse :: "string \<Rightarrow> 'w"
  SHA256 :: "'w \<Rightarrow> 'w"
  RIPEMD160 :: "'w \<Rightarrow> 'w"
  toString :: "'w \<Rightarrow> string"
  base58_encode :: "byte list \<Rightarrow> string"
  base58_decode :: "string \<Rightarrow> error + byte list"
  G_multiply_getEncoded :: "number list \<Rightarrow> bool \<Rightarrow> byte list"
  Point_decodeFrom :: "string \<Rightarrow> error + (nat \<times> nat)"
  elliptic_sign :: "string \<Rightarrow> string \<Rightarrow> nat \<times> nat"

text \<open>A function that returns \<open>-1\<close> or \<open>-2\<close> in place of its result.\<close>

datatype 'a or_number = Number int | Value 'a

record Account =
  privateKey :: "string option"
  publicKeyEncoded :: string
  publicKeyHash :: string
  programHash :: string
  address :: string

text \<open>Reading a byte array as an array of numbers, and storing a number into a
  \<open>Uint8Array\<close> (\<open>NaN\<close> becomes 0, the integer part is taken modulo 256).\<close>

definition numbers :: "byte list \<Rightarrow> number list" where
  "numbers bs = map (\<lambda>b. Num (of_nat (unat b))) bs"

fun toUint8 :: "number \<Rightarrow> byte" where
  "toUint8 NaN = 0"
| "toUint8 (Num q) = word_of_int (truncQ q)"
| "toUint8 Infinity = 0"
| "toUint8 MinusInfinity = 0"

text \<open>String concatenation turns \<open>undefined\<close> into the text \<open>undefined\<close>: the public key
  that \<open>createChainLineWalletScript\<close> receives is a string or, from \<open>signTransaction\<close> on a
  key without account, \<open>undefined\<close>.\<close>

fun jsString :: "string option \<Rightarrow> string" where
  "jsString None = ''undefined''"
| "jsString (Some s) = s"

definition addressToScriptHash :: "'w crypto \<Rightarrow> string \<Rightarrow> error + string" where
  "addressToScriptHash P addr =
     bindE (base58_decode P addr) (\<lambda>data. Inr (ab2hexstring (numbers (take 20 (drop 1 data)))))"

definition createChainLineWalletScript :: "string option \<Rightarrow> string" where
  "createChainLineWalletScript publicKeyEncoded' =
     ''5fc56b6a51527ac46a51c34c097369676e61747572656175754c21'' @ jsString publicKeyEncoded' @
     ''6a52527ac44c20e72d286979ee6cb103e65dfddfb2e384100b8d148e7758de42e4168b71792c606'' @
     ''a53527ac4616168164e656f2e52756e74696d652e4765745472696767657261619c5186009c6307'' @
     ''00006c75666a51c36a52c361617c65ed01009e630800006c75666161682953797374656d2e45786'' @
     ''5637574696f6e456e67696e652e476574536372697074436f6e7461696e65726a54527ac4616168'' @
     ''2d53797374656d2e457865637574696f6e456e67696e652e476574457865637574696e675363726'' @
     ''97074486173686a55527ac46a54c376009e630500616161681a4e656f2e5472616e73616374696f'' @
     ''6e2e4765744f7574707574736a56527ac4006a5d527ac46a56c36a57527ac4006a58527ac46a58c'' @
     ''36a57c3c0a26397006a57c36a58c3c36a59527ac46a59c36a5a527ac46a5ac3616168184e656f2e'' @
     ''4f75747075742e476574536372697074486173686a55c3619c009c634c006a5ac3616168154e656'' @
     ''f2e4f75747075742e476574417373657449646a53c3619c009c6326006a5dc36a5ac3616168134e'' @
     ''656f2e4f75747075742e47657456616c7565936a5d527ac4616a58c351936a58527ac46264ff616'' @
     ''a5dc300948d00a1638b006a56c300c3616168184e656f2e4f75747075742e476574536372697074'' @
     ''486173686a57527ac44c1377616c6c65745f7265717565737454784f757454c576006a51c3c4765'' @
     ''16a52c3c476526a57c3764c09726563697069656e74617575c476536a5dc361c461617c6730a2b0'' @
     ''4139d714564eb956896498616cf8acc8db6a58527ac46a58c36c7566516c75666153c56b6a00527'' @
     ''ac46a51527ac46a00c36a51c361ac6c756661''"

definition getHash :: "'w crypto \<Rightarrow> string \<Rightarrow> string" where
  "getHash P signatureScript =
     (let ProgramHexString = Hex_parse P signatureScript;
          ProgramSha256 = SHA256 P ProgramHexString
      in toString P (RIPEMD160 P ProgramSha256))"

text \<open>\<open>datas.set(scriptHashShaBuffer.slice(0, 4), 21)\<close> writes at most four bytes; the
  array \<open>datas\<close> has 25 entries, zero where nothing is written.\<close>

definition toAddress :: "'w crypto \<Rightarrow> number list \<Rightarrow> error + string" where
  "toAddress P ProgramHash =
     (if length ProgramHash \<noteq> 20 then Inl (Error ''Invalid ProgramHash length'')
      else
        let data = 23 # map toUint8 ProgramHash;
            scriptHashHex = Hex_parse P (ab2hexstring (numbers data));
            scriptHashSha = SHA256 P scriptHashHex;
            scriptHashSha2 = SHA256 P scriptHashSha;
            scriptHashShaBuffer = hexstring2ab (toString P scriptHashSha2);
            datas = data @ take 4 (map toUint8 (take 4 scriptHashShaBuffer) @ replicate 4 0)
        in Inr (base58_encode P datas))"

definition verifyPublicKeyEncoded :: "'w crypto \<Rightarrow> string \<Rightarrow> error + bool" where
  "verifyPublicKeyEncoded P publicKeyEncoded' =
     (let publicKeyArray = hexstring2ab publicKeyEncoded' in
      if take 1 publicKeyArray \<noteq> [Num 2] \<and> take 1 publicKeyArray \<noteq> [Num 3] then Inr False
      else
        bindE (Point_decodeFrom P publicKeyEncoded') (\<lambda>(affineX, affineY).
          let curvePtY31 = affineY mod 256 in
          if take 1 publicKeyArray = [Num 2] \<and> curvePtY31 mod 2 = 0 then Inr True
          else if take 1 publicKeyArray = [Num 3] \<and> curvePtY31 mod 2 = 1 then Inr True
          else Inr False))"

definition getAccountFromPublicKey ::
  "'w crypto \<Rightarrow> string \<Rightarrow> string option \<Rightarrow> error + Account or_number" where
  "getAccountFromPublicKey P publicKeyEncoded' privateKey' =
     bindE (verifyPublicKeyEncoded P publicKeyEncoded') (\<lambda>ok.
       if \<not> ok then Inr (Number (- 1))
       else
         let publicKeyHash = getHash P publicKeyEncoded';
             script = createChainLineWalletScript (Some publicKeyEncoded');
             programHash = getHash P script
         in bindE (toAddress P (hexstring2ab programHash)) (\<lambda>address.
              Inr (Value \<lparr>privateKey = privateKey', publicKeyEncoded = publicKeyEncoded',
                          publicKeyHash = publicKeyHash, programHash = programHash,
                          address = address\<rparr>)))"

definition getPublicKey :: "'w crypto \<Rightarrow> string \<Rightarrow> bool \<Rightarrow> byte list" where
  "getPublicKey P privateKey' encode = G_multiply_getEncoded P (hexstring2ab privateKey') encode"

definition getAccountFromPrivateKey :: "'w crypto \<Rightarrow> string \<Rightarrow> error + Account or_number" where
  "getAccountFromPrivateKey P privateKey' =
     (if length privateKey' \<noteq> 64 then Inr (Number (- 1))
      else
        let publicKeyEncoded' = getPublicKey P privateKey' True
        in getAccountFromPublicKey P (ab2hexstring (numbers publicKeyEncoded')) (Some privateKey'))"

definition getPrivateKeyFromWIF :: "'w crypto \<Rightarrow> string \<Rightarrow> error + string or_number" where
  "getPrivateKeyFromWIF P wif =
     bindE (base58_decode P wif) (\<lambda>data.
       if length data \<noteq> 38 \<or> take 1 data \<noteq> [0x80] \<or> take 1 (drop 33 data) \<noteq> [0x01]
       then Inr (Number (- 1))
       else
         let dataHexString = Hex_parse P (ab2hexstring (numbers (take (length data - 4) data)));
             dataSha = SHA256 P dataHexString;
             dataSha2 = SHA256 P dataSha;
             dataShaBuffer = hexstring2ab (toString P dataSha2)
         in if ab2hexstring (take 4 dataShaBuffer)
                 \<noteq> ab2hexstring (numbers (drop (length data - 4) data))
            then Inr (Number (- 2))
            else Inr (Value (ab2hexstring (numbers (take 32 (drop 1 data))))))"

definition getAccountFromWIFKey :: "'w crypto \<Rightarrow> string \<Rightarrow> error + Account or_number" where
  "getAccountFromWIFKey P WIFKey =
     bindE (getPrivateKeyFromWIF P WIFKey) (\<lambda>privateKey'.
       case privateKey' of
         Number n \<Rightarrow> Inr (Number n)
       | Value k \<Rightarrow> getAccountFromPrivateKey P k)"

text \<open>\<open>bn.toArrayLike(Buffer, 'be', 32)\<close>: 32 bytes, most significant first; the library
  raises an assertion error when the number needs more.\<close>

definition toArrayLike_be32 :: "nat \<Rightarrow> error + byte list" where
  "toArrayLike_be32 n =
     (if n < 2 ^ 256 then Inr (map (\<lambda>i. of_nat (n div 256 ^ (31 - i))) [0..<32])
      else Inl (Error ''byte array longer than desired length''))"

definition signatureData :: "'w crypto \<Rightarrow> string \<Rightarrow> string \<Rightarrow> error + string" where
  "signatureData P data privateKey' =
     (let msg = Hex_parse P data;
          msgHash = SHA256 P msg;
          msgHashHex = toString P msgHash;
          (r, s) = elliptic_sign P msgHashHex privateKey'
      in bindE (toArrayLike_be32 r) (\<lambda>rb.
         bindE (toArrayLike_be32 s) (\<lambda>sb.
           Inr (ab2hexstring (numbers (rb @ sb))))))"

section \<open>Signing and hashing a transaction\<close>

definition signTransaction ::
  "('c, 'e) serialize \<Rightarrow> 'w crypto \<Rightarrow> ('c, 'e) Transaction \<Rightarrow> string
     \<Rightarrow> error + ('c, 'e) Transaction" where
  "signTransaction sz P transaction privateKey' =
     bindE (serializeTransaction sz transaction False) (\<lambda>data.
     bindE (signatureData P data privateKey') (\<lambda>sig.
       let invocationScript = ''40'' @ sig in
     bindE (getAccountFromPrivateKey P privateKey') (\<lambda>account.
       let verificationScript = createChainLineWalletScript
             (case account of Number n \<Rightarrow> None | Value a \<Rightarrow> Some (publicKeyEncoded a));
           witness = \<lparr>invocationScript = invocationScript,
                      verificationScript = verificationScript\<rparr>
       in Inr (case scripts transaction of
                 Some ws \<Rightarrow> transaction\<lparr>scripts := Some (ws @ [witness])\<rparr>
               | None \<Rightarrow> transaction\<lparr>scripts := Some [witness]\<rparr>))))"

definition getTransactionHash ::
  "('c, 'e) serialize \<Rightarrow> 'w crypto \<Rightarrow> ('c, 'e) Transaction \<Rightarrow> error + string" where
  "getTransactionHash sz P transaction =
     bindE (serializeTransaction sz transaction False) (\<lambda>data.
       let txString = Hex_parse P data;
           hash = toString P (SHA256 P (SHA256 P txString))
       in reverseHex hash)"

section \<open>Vocabulary of the statements\<close>

text \<open>The lower-case hexadecimal digits, and a hexadecimal string cut into its bytes
  (two characters each).\<close>

definition lowerhex :: "char \<Rightarrow> bool" where
  "lowerhex c = (c \<in> set ''0123456789abcdef'')"

fun pairs :: "string \<Rightarrow> string list" where
  "pairs (a # b # hex) = [a, b] # pairs hex"
| "pairs hex = []"

text \<open>What is asked of a deserializer that is a parameter: it reads the text \<open>s\<close>,
  wherever \<open>s\<close> stands in the stream, returns \<open>x\<close> and leaves the pointer after \<open>s\<close>.
  \<open>reads_all\<close> says the same of the loop that reads a whole list.\<close>

definition reads_back :: "(StringStream \<Rightarrow> error + ('a \<times> StringStream)) \<Rightarrow> string \<Rightarrow> 'a \<Rightarrow> bool" where
  "reads_back de s x \<longleftrightarrow>
     (\<forall>pre post. de \<lparr>str = pre @ s @ post, pter = length pre\<rparr>
        = Inr (x, \<lparr>str = pre @ s @ post, pter = length pre + length s\<rparr>))"

definition reads_all :: "(StringStream \<Rightarrow> error + ('a \<times> StringStream)) \<Rightarrow> string \<Rightarrow> 'a list \<Rightarrow> bool" where
  "reads_all de s xs \<longleftrightarrow>
     (\<forall>pre post arr. pushAll (length xs) de arr \<lparr>str = pre @ s @ post, pter = length pre\<rparr>
        = Inr (arr @ xs, \<lparr>str = pre @ s @ post, pter = length pre + length s\<rparr>))"

text \<open>What is asked of the hash functions that are parameters: the digest of \<open>h\<close> prints
  as \<open>2 * n\<close> lower-case hexadecimal digits. \<open>wordBytes\<close> are the bytes of a word array
  and \<open>ofBytes\<close> is the word array of a list of bytes, both through the hexadecimal text,
  as the code converts them. \<open>bigEndian k n\<close> are the \<open>k\<close> bytes of \<open>n\<close>, most significant
  first.\<close>

definition prints_hex :: "'w crypto \<Rightarrow> ('w \<Rightarrow> 'w) \<Rightarrow> nat \<Rightarrow> bool" where
  "prints_hex P h n \<longleftrightarrow>
     (\<forall>w. length (toString P (h w)) = 2 * n \<and> (\<forall>c \<in> set (toString P (h w)). lowerhex c))"

definition wordBytes :: "'w crypto \<Rightarrow> 'w \<Rightarrow> byte list" where
  "wordBytes P w = map toUint8 (hexstring2ab (toString P w))"

definition ofBytes :: "'w crypto \<Rightarrow> byte list \<Rightarrow> 'w" where
  "ofBytes P bs = Hex_parse P (ab2hexstring (numbers bs))"

definition bigEndian :: "nat \<Rightarrow> nat \<Rightarrow> byte list" where
  "bigEndian k n = map (\<lambda>i. of_nat (n div 256 ^ (k - 1 - i))) [0..<k]"

text \<open>An instance of the two tables, used where a statement is checked on a concrete
  transaction: a component is a string of two characters that serializes to itself, and
  the only transaction type is 128, without exclusive data. It stands for no code of the
  repository.\<close>

definition toy_serialize :: "(string, unit) serialize" where
  "toy_serialize = \<lparr>serialize_attribute = Inr, serialize_input = Inr, serialize_output = Inr,
     serialize_script = (\<lambda>w. Inr (invocationScript w @ verificationScript w)),
     serialize_exclusiveData = (\<lambda>t. if t = Num 128 then Some (\<lambda>tx. Inr []) else None)\<rparr>"

definition toy_deserialize :: "(string, unit) deserialize" where
  "toy_deserialize = \<lparr>deserialize_attribute = (\<lambda>ss. read ss 1),
     deserialize_input = (\<lambda>ss. read ss 1), deserialize_output = (\<lambda>ss. read ss 1),
     deserialize_script = (\<lambda>ss. bindE (read ss 1) (\<lambda>(i, ss').
        bindE (read ss' 1) (\<lambda>(v, ss''). Inr (\<lparr>invocationScript = i, verificationScript = v\<rparr>, ss'')))),
     deserialize_exclusiveData = (\<lambda>t. if t = Num 128 then Some (\<lambda>ss. Inr ((), ss)) else None)\<rparr>"

text \<open>An instance of the library parameters, for the same use: the digests are constants,
  the base58 coder writes hexadecimal digits, the public key of every private key is the byte
  2 followed by 32 bytes 1, and every signature is \<open>(1, 2)\<close>. It stands for no code of the
  repository and for no cryptography.\<close>

definition toy_crypto :: "string crypto" where
  "toy_crypto = \<lparr>Hex_parse = (\<lambda>s. s),
     SHA256 = (\<lambda>w. ''000102030405060708090a0b0c0d0e0f101112131415161718191a1b1c1d1e1f''),
     RIPEMD160 = (\<lambda>w. ''a0a1a2a3a4a5a6a7a8a9aaabacadaeafb0b1b2b3''),
     toString = (\<lambda>w. w),
     base58_encode = (\<lambda>bs. ab2hexstring (numbers bs)),
     base58_decode = (\<lambda>s. if odd (length s) then Inl (Error ''Non-base58 character'')
        else Inr (map toUint8 (hexstring2ab s))),
     G_multiply_getEncoded = (\<lambda>k encode. 2 # replicate 32 1),
     Point_decodeFrom = (\<lambda>s. Inr (1, 2)),
     elliptic_sign = (\<lambda>msg key. (1, 2))\<rparr>"

declare hexstr.simps [simp del]

section \<open>Rounding to the nearest double\<close>

lemma roundEven_of_int: "roundEven (of_int z) = z"
  by (simp add: roundEven_def)

lemma roundEven_near: "\<bar>of_int (roundEven t) - t\<bar> \<le> 1 / 2"
proof -
  have "of_int \<lfloor>t\<rfloor> \<le> t" "t < of_int \<lfloor>t\<rfloor> + 1" by linarith+
  then show ?thesis unfolding roundEven_def Let_def by (auto simp: abs_le_iff)
qed

lemma roundEven_nonneg: "0 \<le> t \<Longrightarrow> 0 \<le> roundEven t"
  unfolding roundEven_def Let_def by auto

lemma ilog2_ge1:
  assumes "1 \<le> x"
  shows "0 \<le> ilog2 x" "2 ^ nat (ilog2 x) \<le> x" "x < 2 ^ nat (ilog2 x + 1)"
proof -
  define N where "N = nat \<lfloor>x\<rfloor>"
  have N: "0 < N" "of_nat N \<le> x" "x < of_nat N + 1"
    using assms by (auto simp: N_def) linarith+
  define b where "b = floorlog 2 N"
  from floorlog_bounds [of N 2] N(1) have bb: "2 ^ (b - 1) \<le> N" "N < 2 ^ b"
    by (simp_all add: b_def)
  have b0: "0 < b" using bb(2) N(1) by (cases b) auto
  have il: "ilog2 x = int b - 1" using assms by (simp add: ilog2_def b_def N_def)
  show "0 \<le> ilog2 x" using il b0 by simp
  have n1: "nat (ilog2 x) = b - 1" using il b0 by simp
  have n2: "nat (ilog2 x + 1) = b" using il by simp
  have "(2::rat) ^ (b - 1) \<le> of_nat N" using bb(1) by simp
  then have "(2::rat) ^ (b - 1) \<le> x" using N(2) by (rule order_trans)
  then show "2 ^ nat (ilog2 x) \<le> x" by (simp only: n1)
  have "N + 1 \<le> 2 ^ b" using bb(2) by simp
  then have "(of_nat (N + 1) :: rat) \<le> of_nat (2 ^ b)" by (simp only: of_nat_le_iff)
  then show "x < 2 ^ nat (ilog2 x + 1)" using N(3) n2 by simp
qed

lemma ilog2_lt1:
  assumes "0 < x" "x < 1"
  shows "ilog2 x \<le> 0" "1 / 2 ^ nat (- ilog2 x) \<le> x" "x * 2 ^ nat (- ilog2 x) < 2"
proof -
  define M where "M = nat (\<lceil>1 / x\<rceil> - 1)"
  have y1: "1 < 1 / x" using assms by simp
  then have c2: "2 \<le> \<lceil>1 / x\<rceil>" by linarith
  have M: "0 < M" "of_nat M < 1 / x" "1 / x \<le> of_nat M + 1"
    using c2 by (auto simp: M_def) linarith+
  define c where "c = floorlog 2 M"
  from floorlog_bounds [of M 2] M(1) have cc: "2 ^ (c - 1) \<le> M" "M < 2 ^ c"
    by (simp_all add: c_def)
  have c0: "0 < c" using cc(2) M(1) by (cases c) auto
  have il: "ilog2 x = - int c" using assms by (simp add: ilog2_def c_def M_def)
  show "ilog2 x \<le> 0" using il by simp
  have n: "nat (- ilog2 x) = c" using il by simp
  have "M + 1 \<le> 2 ^ c" using cc(2) by simp
  then have "(of_nat (M + 1) :: rat) \<le> of_nat (2 ^ c)" by (simp only: of_nat_le_iff)
  then have "1 / x \<le> 2 ^ c" using M(3) by simp
  then show "1 / 2 ^ nat (- ilog2 x) \<le> x" using assms(1) n by (simp add: field_simps)
  have "(2::rat) ^ (c - 1) \<le> of_nat M" using cc(1) by simp
  then have "2 ^ (c - 1) < 1 / x" using M(2) by (rule le_less_trans)
  then have "x * 2 ^ (c - 1) < 1" using assms(1) by (simp add: field_simps)
  moreover have "(2::rat) ^ c = 2 * 2 ^ (c - 1)" using c0 by (cases c) auto
  ultimately show "x * 2 ^ nat (- ilog2 x) < 2" using n by simp
qed

lemma ilog2_bounds:
  assumes "0 < x"
  shows "2 powi (ilog2 x) \<le> x \<and> x < 2 powi (ilog2 x + 1)"
proof (cases "1 \<le> x")
  case True
  from ilog2_ge1 [OF True] show ?thesis by (simp add: power_int_def)
next
  case False
  then have x1: "x < 1" by simp
  note b = ilog2_lt1 [OF assms x1]
  define c where "c = nat (- ilog2 x)"
  have il: "ilog2 x = - int c" using b(1) by (simp add: c_def)
  have lo: "2 powi (ilog2 x) \<le> x" using b(2) by (simp add: il c_def [symmetric] power_int_minus field_simps)
  have "x < 2 powi (1 - int c)"
    using b(3) by (simp add: c_def [symmetric] power_int_diff field_simps)
  then show ?thesis using lo by (simp add: il)
qed


lemma powi_less_imp_less:
  assumes "(2::rat) powi a < 2 powi b"
  shows "a < b"
proof (rule ccontr)
  assume "\<not> a < b"
  then have "b \<le> a" by simp
  then have "(2::rat) powi b \<le> 2 powi a" by (rule power_int_increasing) simp
  with assms show False by simp
qed

lemma powi_pos: "0 < (2::rat) powi a"
  by (simp add: power_int_def)

lemma fl_nonneg: "0 \<le> x \<Longrightarrow> 0 \<le> fl x"
proof (cases "x = 0")
  case True
  then show ?thesis by (simp add: fl_def)
next
  case False
  assume "0 \<le> x"
  with False have x: "0 < x" by simp
  define q where "q = (2::rat) powi (max (ilog2 \<bar>x\<bar>) (- 1022) - 52)"
  have q: "0 < q" by (simp add: q_def powi_pos)
  have f: "fl x = of_int (roundEven (x / q)) * q"
    using x by (simp add: fl_def Let_def q_def)
  have "0 \<le> roundEven (x / q)" using x q by (intro roundEven_nonneg) simp
  then show ?thesis using q by (simp add: f)
qed

lemma fl_exact:
  assumes "m < 2 ^ 53"
  shows "fl (of_nat m * 2 ^ k) = of_nat m * 2 ^ k"
proof (cases "m = 0")
  case True
  then show ?thesis by (simp add: fl_def)
next
  case False
  define x :: rat where "x = of_nat m * 2 ^ k"
  have m1: "(1::rat) \<le> of_nat m" using False by (simp add: Suc_le_eq)
  have k1: "(1::rat) \<le> 2 ^ k" by simp
  have x1: "1 \<le> x" using mult_mono [OF m1 k1] by (simp add: x_def)
  then have x0: "0 < x" by simp
  define e where "e = ilog2 x"
  have e0: "0 \<le> e" using ilog2_ge1(1) [OF x1] by (simp add: e_def)
  have "(of_nat m :: rat) < of_nat (2 ^ 53)" using assms by (simp only: of_nat_less_iff)
  then have "x < 2 ^ 53 * 2 ^ k" by (simp add: x_def)
  then have "x < 2 powi (53 + int k)" by (simp add: power_int_add)
  moreover have "2 powi e \<le> x" using ilog2_bounds [OF x0] by (simp add: e_def)
  ultimately have "(2::rat) powi e < 2 powi (53 + int k)" by (rule le_less_trans [rotated])
  then have ek: "e < 53 + int k" by (rule powi_less_imp_less)
  define j where "j = nat (52 + int k - e)"
  have j: "int k = e - 52 + int j" using ek by (simp add: j_def)
  define q where "q = (2::rat) powi (e - 52)"
  have q: "0 < q" by (simp add: q_def powi_pos)
  have "(2::rat) ^ k = 2 powi (int k)" by simp
  also have "\<dots> = q * 2 ^ j" unfolding q_def j by (simp add: power_int_add)
  finally have kq: "(2::rat) ^ k = q * 2 ^ j" .
  have xq: "x / q = of_int (int m * 2 ^ j)" using q by (simp add: x_def kq)
  have r: "roundEven (x / q) = int m * 2 ^ j" by (simp only: xq roundEven_of_int)
  have "fl x = of_int (roundEven (x / q)) * q"
    using x0 e0 by (simp add: fl_def Let_def q_def e_def [symmetric] max_def)
  also have "\<dots> = x" by (simp only: r) (simp add: x_def kq)
  finally show ?thesis by (simp only: x_def)
qed

lemma fl_error:
  assumes "2 powi (- 1022) \<le> x"
  shows "\<bar>fl x - x\<bar> \<le> x / 2 ^ 53"
proof -
  have x0: "0 < x" using assms powi_pos [of "- 1022"] by (rule less_le_trans [rotated])
  define e where "e = ilog2 x"
  have b: "2 powi e \<le> x" "x < 2 powi (e + 1)" using ilog2_bounds [OF x0] by (simp_all add: e_def)
  from assms b(2) have "(2::rat) powi (- 1022) < 2 powi (e + 1)" by (rule le_less_trans)
  then have e0: "- 1022 \<le> e" using powi_less_imp_less by fastforce
  define q where "q = (2::rat) powi (e - 52)"
  have q: "0 < q" by (simp add: q_def powi_pos)
  have f: "fl x = of_int (roundEven (x / q)) * q"
    using x0 e0 by (simp add: fl_def Let_def q_def e_def [symmetric] max_def)
  have "fl x - x = (of_int (roundEven (x / q)) - x / q) * q" using q by (simp add: f field_simps)
  then have "\<bar>fl x - x\<bar> = \<bar>of_int (roundEven (x / q)) - x / q\<bar> * q"
    using q by (simp add: abs_mult)
  also have "\<dots> \<le> 1 / 2 * q" using roundEven_near [of "x / q"] q by (intro mult_right_mono) simp_all
  also have "\<dots> = 2 powi e / 2 ^ 53" by (simp add: q_def power_int_diff)
  also have "\<dots> \<le> x / 2 ^ 53" using b(1) by (simp add: divide_right_mono)
  finally show ?thesis .
qed

text \<open>The rounding is determined by the binade of \<open>x\<close> and an integer within a half of
  the scaled value; it does not pass a double above \<open>x\<close>.\<close>

lemma roundEven_eqI:
  assumes "\<bar>t - of_int z\<bar> < 1 / 2"
  shows "roundEven t = z"
proof (cases "of_int z \<le> t")
  case True
  with assms have "t < of_int z + 1 / 2" by linarith
  with True have f: "\<lfloor>t\<rfloor> = z" by (intro floor_unique) simp_all
  have "t - of_int z < 1 / 2" using assms by linarith
  then show ?thesis by (simp add: roundEven_def f)
next
  case False
  then have lt: "t < of_int z" by simp
  from assms have gt: "of_int z - 1 / 2 < t" by linarith
  have f: "\<lfloor>t\<rfloor> = z - 1" using lt gt by (intro floor_unique) simp_all
  have "1 / 2 < t - of_int (z - 1)" using gt by simp
  then show ?thesis by (simp add: roundEven_def f Let_def)
qed

lemma ilog2_eqI:
  assumes "2 powi e \<le> x" "x < 2 powi (e + 1)"
  shows "ilog2 x = e"
proof -
  have x0: "0 < x" using powi_pos [of e] assms(1) by (rule less_le_trans)
  note b = ilog2_bounds [OF x0]
  have "(2::rat) powi e < 2 powi (ilog2 x + 1)" using assms(1) b by simp
  then have 1: "e < ilog2 x + 1" by (rule powi_less_imp_less)
  have "(2::rat) powi (ilog2 x) < 2 powi (e + 1)" using assms(2) b by simp
  then have 2: "ilog2 x < e + 1" by (rule powi_less_imp_less)
  from 1 2 show ?thesis by simp
qed

lemma fl_eqI:
  assumes "2 powi e \<le> x" "x < 2 powi (e + 1)" "- 1022 \<le> e"
    and "\<bar>x / 2 powi (e - 52) - of_int z\<bar> < 1 / 2"
  shows "fl x = of_int z * 2 powi (e - 52)"
proof -
  have x0: "0 < x" using powi_pos [of e] assms(1) by (rule less_le_trans)
  have il: "ilog2 x = e" using assms(1,2) by (rule ilog2_eqI)
  have r: "roundEven (x / 2 powi (e - 52)) = z" using assms(4) by (rule roundEven_eqI)
  have "fl x = of_int (roundEven (x / 2 powi (e - 52))) * 2 powi (e - 52)"
    using x0 assms(3) by (simp add: fl_def Let_def il max_def)
  then show ?thesis by (simp only: r)
qed

lemma roundEven_le:
  assumes "t \<le> of_int z"
  shows "roundEven t \<le> z"
proof (cases "\<lfloor>t\<rfloor> = z")
  case True
  then have "of_int z \<le> t" by (metis of_int_floor_le)
  with assms have "t = of_int z" by simp
  then show ?thesis by (simp add: roundEven_def)
next
  case False
  have "\<lfloor>t\<rfloor> \<le> z" using assms by (simp add: floor_le_iff)
  with False have "\<lfloor>t\<rfloor> + 1 \<le> z" by simp
  then show ?thesis by (simp add: roundEven_def Let_def)
qed

lemma fl_le_double:
  assumes "0 \<le> x" "x \<le> of_nat m * 2 ^ k" "m < 2 ^ 53"
  shows "fl x \<le> of_nat m * 2 ^ k"
proof (cases "x = 0")
  case True
  then show ?thesis by (simp add: fl_def)
next
  case False
  with assms(1) have x0: "0 < x" by simp
  define e where "e = max (ilog2 x) (- 1022)"
  have "(of_nat m :: rat) < of_nat (2 ^ 53)" using assms(3) by (simp only: of_nat_less_iff)
  then have "of_nat m * 2 ^ k < (2::rat) ^ 53 * 2 ^ k" by simp
  with assms(2) have "x < 2 ^ 53 * 2 ^ k" by (rule le_less_trans)
  then have "x < 2 powi (53 + int k)" by (simp add: power_int_add)
  moreover have "2 powi (ilog2 x) \<le> x" using ilog2_bounds [OF x0] by simp
  ultimately have "(2::rat) powi (ilog2 x) < 2 powi (53 + int k)" by (rule le_less_trans [rotated])
  then have "ilog2 x < 53 + int k" by (rule powi_less_imp_less)
  then have ek: "e < 53 + int k" by (simp add: e_def)
  define j where "j = nat (52 + int k - e)"
  have j: "int k = e - 52 + int j" using ek by (simp add: j_def)
  define q where "q = (2::rat) powi (e - 52)"
  have q: "0 < q" by (simp add: q_def powi_pos)
  have "(2::rat) ^ k = 2 powi (int k)" by simp
  also have "\<dots> = q * 2 ^ j" unfolding q_def j by (simp add: power_int_add)
  finally have kq: "(2::rat) ^ k = q * 2 ^ j" .
  have "x / q \<le> of_nat m * 2 ^ k / q" using assms(2) q by (simp add: divide_right_mono)
  also have "\<dots> = of_int (int m * 2 ^ j)" using q by (simp add: kq)
  finally have "roundEven (x / q) \<le> int m * 2 ^ j" by (rule roundEven_le)
  then have "(of_int (roundEven (x / q)) :: rat) \<le> of_int (int m * 2 ^ j)" by (simp only: of_int_le_iff)
  then have "of_int (roundEven (x / q)) * q \<le> of_int (int m * 2 ^ j) * q"
    using q by (simp only: mult_le_cancel_right_pos)
  also have "\<dots> = of_nat m * 2 ^ k" by (simp add: kq)
  finally have "of_int (roundEven (x / q)) * q \<le> of_nat m * 2 ^ k" .
  moreover have "fl x = of_int (roundEven (x / q)) * q"
    using x0 by (simp add: fl_def Let_def q_def e_def)
  ultimately show ?thesis by simp
qed

text \<open>Doubles are fixed: \<open>m * 2^k\<close> with \<open>m < 2^53\<close>, in particular every natural number
  below \<open>2^53\<close>.\<close>

lemma double_exact:
  assumes "m < 2 ^ 53" "of_nat m * 2 ^ k < (2::rat) ^ 1024"
  shows "double (of_nat m * 2 ^ k) = Num (of_nat m * 2 ^ k)"
proof -
  have "(0::rat) \<le> of_nat m * 2 ^ k" by simp
  then have "\<bar>of_nat m * 2 ^ k :: rat\<bar> = of_nat m * 2 ^ k" by (rule abs_of_nonneg)
  with assms(2) show ?thesis
    by (simp only: double_def Let_def fl_exact [OF assms(1)]) simp
qed

lemma double_of_nat:
  assumes "n < 2 ^ 53"
  shows "double (of_nat n) = Num (of_nat n)"
proof -
  have "(of_nat n :: rat) < of_nat (2 ^ 53)" using assms by (simp only: of_nat_less_iff)
  also have "\<dots> < 2 ^ 1024" by simp
  finally have "of_nat n * 2 ^ 0 < (2::rat) ^ 1024" by simp
  from double_exact [OF assms this] show ?thesis by simp
qed

lemma double_one: "double 1 = Num 1"
  using double_of_nat [of 1] by simp

lemma double_zero: "double 0 = Num 0"
  by (simp add: double_def fl_def)

lemma double_finite: "\<bar>fl x\<bar> < 2 ^ 1024 \<Longrightarrow> double x = Num (fl x)"
  by (simp add: double_def Let_def)

text \<open>\<open>Math.round\<close> of a number within a half of an integer.\<close>

lemma Math_round_near:
  assumes "\<bar>p - of_nat n\<bar> < 1 / 2"
  shows "Math_round (Num p) = Num (of_nat n)"
proof -
  from assms have "of_nat n \<le> p + 1 / 2" "p + 1 / 2 < of_nat n + 1"
    by linarith+
  then have "\<lfloor>p + 1 / 2\<rfloor> = int n" by (intro floor_unique) simp_all
  then show ?thesis by simp
qed

lemma Math_round_of_nat: "Math_round (Num (of_nat n)) = Num (of_nat n)"
  by (rule Math_round_near) simp

section \<open>Hexadecimal strings\<close>

lemma nat_less_16_cases:
  "(d::nat) < 16 \<Longrightarrow> d = 0 \<or> d = 1 \<or> d = 2 \<or> d = 3 \<or> d = 4 \<or> d = 5 \<or> d = 6 \<or> d = 7 \<or>
     d = 8 \<or> d = 9 \<or> d = 10 \<or> d = 11 \<or> d = 12 \<or> d = 13 \<or> d = 14 \<or> d = 15"
  by arith

lemma lowerhex_hexdigit: "d < 16 \<Longrightarrow> lowerhex (hexdigit d)"
  by (drule nat_less_16_cases) (auto simp: lowerhex_def hexdigit_def)

lemma digit16_hexdigit: "d < 16 \<Longrightarrow> digit16 (hexdigit d) = Some d"
  by (drule nat_less_16_cases) (auto simp: digit16_def hexdigit_def)

lemma lowerhex_digit16: "lowerhex c \<Longrightarrow> \<exists>d < 16. digit16 c = Some d \<and> c = hexdigit d"
  unfolding lowerhex_def
  by (auto simp: digit16_def hexdigit_def)

lemma lowerhex_plain:
  "lowerhex c \<Longrightarrow> \<not> isWhiteSpace c \<and> c \<noteq> CHR ''-'' \<and> c \<noteq> CHR ''+'' \<and> c \<noteq> CHR ''x'' \<and> c \<noteq> CHR ''X''"
  unfolding lowerhex_def by (auto simp: isWhiteSpace_def)

lemma hexstr_lowerhex: "\<forall>c \<in> set (hexstr n). lowerhex c"
proof (induction n rule: hexstr.induct)
  case (1 n)
  show ?case
  proof (cases "n < 16")
    case True
    then show ?thesis by (subst hexstr.simps) (simp add: lowerhex_hexdigit)
  next
    case False
    with 1 show ?thesis by (subst hexstr.simps) (simp add: lowerhex_hexdigit)
  qed
qed

lemma hexstr_nonempty: "hexstr n \<noteq> []"
  by (subst hexstr.simps) simp

lemma digitsValue_snoc: "digitsValue (ds @ [c]) = 16 * digitsValue ds + the (digit16 c)"
  by (simp add: digitsValue_def)

lemma digitsValue_hexstr: "digitsValue (hexstr n) = n"
proof (induction n rule: hexstr.induct)
  case (1 n)
  show ?case
  proof (cases "n < 16")
    case True
    then show ?thesis
      by (subst hexstr.simps) (simp add: digitsValue_def digit16_hexdigit)
  next
    case False
    with 1 show ?thesis
      by (subst hexstr.simps) (simp add: digitsValue_snoc digit16_hexdigit)
  qed
qed

lemma length_hexstr_le: "0 < k \<Longrightarrow> length (hexstr n) \<le> k \<longleftrightarrow> n < 16 ^ k"
proof (induction n arbitrary: k rule: hexstr.induct)
  case (1 n)
  show ?case
  proof (cases "n < 16")
    case True
    have "(16::nat) ^ 1 \<le> 16 ^ k" using "1.prems" by (intro power_increasing) auto
    with True "1.prems" show ?thesis by (subst hexstr.simps) auto
  next
    case False
    show ?thesis
    proof (cases "k = 1")
      case True
      with False hexstr_nonempty [of "n div 16"] show ?thesis
        by (subst hexstr.simps) (auto simp: Suc_le_eq)
    next
      case k: False
      then obtain j where j: "k = Suc j" "0 < j" using "1.prems" by (cases k) auto
      have "length (hexstr (n div 16)) \<le> j \<longleftrightarrow> n div 16 < 16 ^ j"
        using "1.IH" [OF False j(2)] .
      also have "\<dots> \<longleftrightarrow> n < 16 ^ k" using j by (simp add: div_less_iff_less_mult mult.commute)
      finally show ?thesis using False j by (subst hexstr.simps) simp
    qed
  qed
qed

lemma digitsValue_zeros: "digitsValue (replicate k CHR ''0'' @ ds) = digitsValue ds"
proof -
  have d0: "digit16 CHR ''0'' = Some 0" by (simp add: digit16_def)
  have "foldl (\<lambda>a c. 16 * a + the (digit16 c)) 0 (replicate k CHR ''0'') = 0"
    by (induction k) (simp_all add: d0)
  then show ?thesis by (simp add: digitsValue_def)
qed

lemma parseInt_lowerhex:
  assumes "s \<noteq> []" "\<forall>c \<in> set s. lowerhex c"
  shows "parseInt s = Num (of_nat (digitsValue s))"
proof -
  obtain c r where s: "s = c # r" using assms(1) by (cases s) auto
  have c: "\<not> isWhiteSpace c" "c \<noteq> CHR ''-''" "c \<noteq> CHR ''+''"
    using assms(2) lowerhex_plain [of c] by (auto simp: s)
  have sp: "stripPrefix s = s"
  proof (cases r)
    case Nil
    then show ?thesis by (simp add: stripPrefix_def s)
  next
    case (Cons x r')
    with assms(2) s have "lowerhex x" by simp
    from lowerhex_plain [OF this] show ?thesis by (simp add: stripPrefix_def s Cons)
  qed
  have tw: "takeWhile (\<lambda>c. digit16 c \<noteq> None) s = s"
    using assms(2) lowerhex_digit16 by (fastforce simp: takeWhile_eq_all_conv)
  show ?thesis
    using c sp tw assms(1) by (simp add: parseInt_def stripSign_def s)
qed

text \<open>\<open>parseInt\<close> gives \<open>NaN\<close> or a finite number, and so does \<open>readVarInt\<close>.\<close>

lemma parseInt_finite: "parseInt s \<noteq> Infinity \<and> parseInt s \<noteq> MinusInfinity"
  by (simp add: parseInt_def Let_def split: prod.split)

lemma readVarInt_finite:
  assumes "readVarInt ss = Inr (n, ss')"
  shows "n \<noteq> Infinity \<and> n \<noteq> MinusInfinity"
proof -
  have rr: "\<And>ss k n ss'. readReversed ss k = Inr (n, ss') \<Longrightarrow> n \<noteq> Infinity \<and> n \<noteq> MinusInfinity"
  proof -
    fix ss k n ss' assume a: "readReversed ss k = Inr (n, ss')"
    obtain s ss1 where r: "read ss k = Inr (s, ss1)"
      using a by (cases "read ss k") (auto simp: readReversed_def)
    obtain r' where h: "reverseHex s = Inr r'"
      using a r by (cases "reverseHex s") (auto simp: readReversed_def)
    from a r h have "n = parseInt r'" by (simp add: readReversed_def)
    then show "n \<noteq> Infinity \<and> n \<noteq> MinusInfinity" using parseInt_finite by simp
  qed
  obtain s ss1 where r: "read ss 1 = Inr (s, ss1)"
    using assms by (cases "read ss 1") (auto simp: readVarInt_def)
  from assms r show ?thesis
    using rr parseInt_finite [of s]
    by (auto simp: readVarInt_def Let_def split: if_splits)
qed

subsection \<open>Evaluation on concrete values\<close>

lemma replicate_numeral: "replicate (numeral k) x = x # replicate (pred_numeral k) x"
  by (simp add: numeral_eq_Suc)

lemma reverseHex_loop_numeral:
  "reverseHex_loop hex (numeral k) =
     take 2 (drop (2 * pred_numeral k) hex) @ reverseHex_loop hex (pred_numeral k)"
  by (simp add: numeral_eq_Suc)

lemmas utils_eval =
  num2VarInt_def num2hexstring_def absstr_def hexdigit_def hexstr.simps replicate_numeral
  readVarInt_def readReversed_def read_def isEmpty_def reverseHex_def reverseHex_loop_numeral
  parseInt_def stripSign_def stripPrefix_def isWhiteSpace_def digit16_def digitsValue_def

text \<open>Claim C2. The marker bytes are the documented ones, but \<open>num2VarInt\<close> writes the value
  after the marker most significant byte first, while \<open>readVarInt\<close> reverses what it
  reads: the boundary value \<open>0xfd\<close> is written as \<open>fd00fd\<close> and read back as
  \<open>0xfd00\<close>.\<close>

theorem num2VarInt_0xfd_not_read_back:
  "num2VarInt (Num 0xfd) = ''fd00fd'' \<and>
   readVarInt \<lparr>str = num2VarInt (Num 0xfd), pter = 0\<rparr>
     = Inr (Num 0xfd00, \<lparr>str = ''fd00fd'', pter = 6\<rparr>)"
  by (simp add: utils_eval)

lemma num2VarInt_boundary_encodings:
  "map (\<lambda>n. num2VarInt (Num n)) [0x00, 0xfc, 0xfd, 0xffff, 0x10000, 0xffffffff, 0x100000000]
     = [''00'', ''fc'', ''fd00fd'', ''fdffff'', ''fe00010000'', ''feffffffff'',
        ''ff0000000000000001'']"
  by (simp add: utils_eval double_one)

lemma readVarInt_boundary_encodings:
  "map (\<lambda>s. map_sum id fst (readVarInt \<lparr>str = s, pter = 0\<rparr>))
      [''00'', ''fc'', ''fd00fd'', ''fdffff'', ''fe00010000'', ''feffffffff'',
        ''ff0000000000000001'']
     = map (\<lambda>n. Inr (Num n)) [0x00, 0xfc, 0xfd00, 0xffff, 0x100, 0xffffffff, 0x100000000000000]"
  by (simp add: utils_eval)

text \<open>Claim C8, as stated, fails: the value 256 does not fit two hexadecimal digits, and
  \<open>num2hexstring\<close> returns the two digits \<open>00\<close> without any failure.\<close>

theorem num2hexstring_256_truncated:
  "\<not> (256::nat) < 16 ^ 2 \<and> num2hexstring (Num 256) 2 = ''00''"
  by (simp add: utils_eval)

subsection \<open>Reversal by bytes\<close>

lemma concat_pairs: "even (length hex) \<Longrightarrow> concat (pairs hex) = hex"
  by (induction hex rule: pairs.induct) auto

lemma pairs_append: "even (length xs) \<Longrightarrow> pairs (xs @ ys) = pairs xs @ pairs ys"
  by (induction xs rule: pairs.induct) auto

lemma pairs_length2: "\<forall>p \<in> set (pairs hex). length p = 2"
  by (induction hex rule: pairs.induct) auto

lemma pairs_concat: "\<forall>p \<in> set ps. length p = 2 \<Longrightarrow> pairs (concat ps) = ps"
proof (induction ps)
  case Nil
  then show ?case by simp
next
  case (Cons p ps)
  then obtain a b where "p = [a, b]"
    by (cases p; cases "tl p") (auto simp: length_Suc_conv)
  with Cons show ?case by simp
qed

lemma length_pairs: "length (pairs hex) = length hex div 2"
  by (induction hex rule: pairs.induct) auto

lemma reverseHex_loop_pairs: "k \<le> length (pairs hex) \<Longrightarrow> reverseHex_loop hex k = concat (rev (take k (pairs hex)))"
proof (induction k)
  case 0
  then show ?case by simp
next
  case (Suc k)
  have nth: "take 2 (drop (2 * k) hex) = pairs hex ! k" if "k < length (pairs hex)" for k
    using that
  proof (induction hex arbitrary: k rule: pairs.induct)
    case (1 a b hex)
    then show ?case by (cases k) auto
  qed auto
  from Suc show ?case
    by (simp add: take_Suc_conv_app_nth nth)
qed

lemma reverseHex_even: "even (length hex) \<Longrightarrow> reverseHex hex = Inr (concat (rev (pairs hex)))"
  by (simp add: reverseHex_def reverseHex_loop_pairs length_pairs)

lemma reverseHex_odd: "odd (length hex) \<Longrightarrow> reverseHex hex = Inl (Error (''Incorrect Length: '' @ hex))"
  by (simp add: reverseHex_def odd_iff_mod_2_eq_one)

lemma length_concat_rev_pairs: "even (length hex) \<Longrightarrow> length (concat (rev (pairs hex))) = length hex"
proof -
  assume e: "even (length hex)"
  have "length (concat (rev (pairs hex))) = length (concat (pairs hex))"
    by (simp add: length_concat rev_map [symmetric] sum_list_rev)
  with e show ?thesis by (simp add: concat_pairs)
qed

lemma reverseHex_involution:
  assumes "even (length hex)"
  shows "bindE (reverseHex hex) reverseHex = Inr hex"
proof -
  have 1: "reverseHex hex = Inr (concat (rev (pairs hex)))"
    using assms by (rule reverseHex_even)
  have 2: "pairs (concat (rev (pairs hex))) = rev (pairs hex)"
    by (rule pairs_concat) (simp add: pairs_length2)
  have "reverseHex (concat (rev (pairs hex))) = Inr hex"
    using assms by (simp add: reverseHex_even length_concat_rev_pairs 2 concat_pairs)
  with 1 show ?thesis by simp
qed

text \<open>The padded form of a value that fits.\<close>

lemma num2hexstring_of_nat:
  "num2hexstring (Num (of_nat n)) sz =
     (if length (hexstr n) mod sz = 0 then hexstr n
      else drop (length (hexstr n)) (replicate sz CHR ''0'' @ hexstr n))"
  by (simp add: num2hexstring_def absstr_def Let_def)

lemma num2hexstring_fits:
  assumes "0 < sz" "n < 16 ^ sz"
  shows "num2hexstring (Num (of_nat n)) sz = replicate (sz - length (hexstr n)) CHR ''0'' @ hexstr n"
    and "length (hexstr n) \<le> sz"
proof -
  show le: "length (hexstr n) \<le> sz" using assms by (simp add: length_hexstr_le)
  have pos: "0 < length (hexstr n)" using hexstr_nonempty by simp
  show "num2hexstring (Num (of_nat n)) sz = replicate (sz - length (hexstr n)) CHR ''0'' @ hexstr n"
  proof (cases "length (hexstr n) = sz")
    case True
    then show ?thesis by (simp add: num2hexstring_of_nat)
  next
    case False
    with le have lt: "length (hexstr n) < sz" by simp
    then have "length (hexstr n) mod sz \<noteq> 0" using pos by simp
    moreover have "replicate sz CHR ''0'' = replicate (length (hexstr n)) CHR ''0'' @ replicate (sz - length (hexstr n)) CHR ''0''"
      using lt by (simp add: replicate_add [symmetric])
    ultimately show ?thesis by (simp add: num2hexstring_of_nat)
  qed
qed

lemma parseInt_padded:
  "parseInt (replicate k CHR ''0'' @ hexstr n) = Num (of_nat n)"
proof -
  have "lowerhex CHR ''0''" by (simp add: lowerhex_def)
  then have "\<forall>c \<in> set (replicate k CHR ''0'' @ hexstr n). lowerhex c"
    using hexstr_lowerhex by auto
  moreover have "replicate k CHR ''0'' @ hexstr n \<noteq> []" using hexstr_nonempty by simp
  ultimately show ?thesis
    by (simp add: parseInt_lowerhex digitsValue_zeros digitsValue_hexstr)
qed

text \<open>\<open>num2fixed8\<close> pads or cuts the hexadecimal text to 16 characters, whatever the number,
  so that \<open>reverseHex\<close> never throws.\<close>

lemma num2fixed8_never_fails: "\<exists>s. num2fixed8 x = Inr s \<and> length s = 16"
proof -
  define h where "h = toString16 (Math_round (mulN x 100000000))"
  define p where "p = drop (length h) (''0000000000000000'' @ h)"
  have len: "length p = 16" by (simp add: p_def)
  then have ev: "even (length p)" by simp
  have "num2fixed8 x = reverseHex p" by (simp only: num2fixed8_def Let_def h_def p_def)
  also have "\<dots> = Inr (concat (rev (pairs p)))" using ev by (rule reverseHex_even)
  finally show ?thesis using length_concat_rev_pairs [OF ev] len by simp
qed

lemma num2hexstring_total:
  "length (num2hexstring x sz) = sz \<or> num2hexstring x sz = toString16 x"
proof -
  have "length (drop (length (toString16 x)) (replicate sz CHR ''0'' @ toString16 x)) = sz"
    by (simp only: length_drop length_append length_replicate)
  then show ?thesis by (simp only: num2hexstring_def Let_def split: if_split) blast
qed

lemma num2fixed8_fits:
  assumes "Math_round (mulN (Num q) 100000000) = Num (of_nat m)" "m < 2 ^ 53"
  shows "\<exists>s r. num2fixed8 (Num q) = Inr s \<and> length s = 16 \<and> reverseHex s = Inr r \<and>
           length r = 16 \<and> parseInt r = Num (of_nat m)"
proof -
  let ?h = "hexstr m"
  let ?p = "replicate (16 - length ?h) CHR ''0'' @ ?h"
  have "m < 2 ^ 64" using assms(2) by simp
  then have m: "m < 16 ^ 16" by simp
  have le: "length ?h \<le> 16" using m by (simp add: length_hexstr_le)
  have ts: "toString16 (Math_round (mulN (Num q) 100000000)) = ?h"
    by (simp only: assms(1)) (simp add: absstr_def)
  have "''0000000000000000'' = replicate (length ?h) CHR ''0'' @ replicate (16 - length ?h) CHR ''0''"
    using le by (simp add: replicate_add [symmetric] eval_nat_numeral)
  then have dr: "drop (length ?h) (''0000000000000000'' @ ?h) = ?p"
    by (simp del: replicate_Suc)
  have len: "length ?p = 16" using le by simp
  then have ev: "even (length ?p)" by simp
  have n2f: "num2fixed8 (Num q) = reverseHex ?p"
    by (simp only: num2fixed8_def Let_def ts dr)
  obtain s where s: "reverseHex ?p = Inr s" "s = concat (rev (pairs ?p))"
    using reverseHex_even [OF ev] by simp
  have ls: "length s = 16" using s(2) length_concat_rev_pairs [OF ev] len by simp
  have rback: "reverseHex s = Inr ?p"
    using reverseHex_involution [OF ev] s(1) by simp
  have "parseInt ?p = Num (of_nat m)" by (rule parseInt_padded)
  with n2f s(1) ls rback len show ?thesis by simp
qed

text \<open>Claim C8, amended: \<open>num2hexstring\<close> and \<open>num2fixed8\<close> report no failure.
  \<open>num2fixed8\<close> returns 16 characters for every number, and \<open>num2hexstring\<close> returns
  \<open>size\<close> characters or else the whole hexadecimal text of the number. A non-negative
  integer below \<open>2^53\<close> that fits the width is written in full: for \<open>size > 0\<close> and
  \<open>num < 16^size\<close>, \<open>num2hexstring\<close> returns exactly \<open>size\<close> digits that \<open>parseInt\<close>
  reads back as \<open>num\<close>; when \<open>Math.round(num * 10^8)\<close>, as the code computes it in double
  arithmetic, is a non-negative integer \<open>m < 2^53\<close>, \<open>num2fixed8\<close> returns 16 digits
  which, reversed by bytes, are 16 digits that \<open>parseInt\<close> reads back as \<open>m\<close>.\<close>

theorem fixed_width_encoding_of_fitting_value:
  "(\<exists>s. num2fixed8 x = Inr s \<and> length s = 16) \<and>
   (length (num2hexstring x sz) = sz \<or> num2hexstring x sz = toString16 x) \<and>
   (0 < sz \<and> n < 16 ^ sz \<and> n < 2 ^ 53 \<longrightarrow>
      length (num2hexstring (Num (of_nat n)) sz) = sz \<and>
      parseInt (num2hexstring (Num (of_nat n)) sz) = Num (of_nat n)) \<and>
   (Math_round (mulN (Num q) 100000000) = Num (of_nat m) \<and> m < 2 ^ 53 \<longrightarrow>
      (\<exists>s r. num2fixed8 (Num q) = Inr s \<and> length s = 16 \<and> reverseHex s = Inr r \<and>
         length r = 16 \<and> parseInt r = Num (of_nat m)))"
proof (intro conjI impI)
  show "\<exists>s. num2fixed8 x = Inr s \<and> length s = 16" by (rule num2fixed8_never_fails)
  show "length (num2hexstring x sz) = sz \<or> num2hexstring x sz = toString16 x"
    by (rule num2hexstring_total)
next
  assume a: "0 < sz \<and> n < 16 ^ sz \<and> n < 2 ^ 53"
  then show "length (num2hexstring (Num (of_nat n)) sz) = sz"
    using num2hexstring_fits [of sz n] by simp
  from a show "parseInt (num2hexstring (Num (of_nat n)) sz) = Num (of_nat n)"
    using num2hexstring_fits(1) [of sz n] by (simp add: parseInt_padded)
next
  assume "Math_round (mulN (Num q) 100000000) = Num (of_nat m) \<and> m < 2 ^ 53"
  then show "\<exists>s r. num2fixed8 (Num q) = Inr s \<and> length s = 16 \<and> reverseHex s = Inr r \<and>
         length r = 16 \<and> parseInt r = Num (of_nat m)"
    using num2fixed8_fits by blast
qed

theorem fixed_width_encoding_of_fitting_value_witness:
  "(\<exists>s. num2fixed8 NaN = Inr s \<and> length s = 16) \<and>
   (0::nat) < 2 \<and> (128::nat) < 16 ^ 2 \<and> (128::nat) < 2 ^ 53 \<and>
   length (num2hexstring (Num 128) 2) = 2 \<and> parseInt (num2hexstring (Num 128) 2) = Num 128 \<and>
   Math_round (mulN (Num 1) 100000000) = Num (of_nat 100000000) \<and> (100000000::nat) < 2 ^ 53 \<and>
   (\<exists>s r. num2fixed8 (Num 1) = Inr s \<and> length s = 16 \<and> reverseHex s = Inr r \<and>
      length r = 16 \<and> parseInt r = Num 100000000)"
proof -
  have "mulN (Num 1) 100000000 = Num (of_nat 100000000)"
    using double_of_nat [of 100000000] by simp
  then have f: "Math_round (mulN (Num 1) 100000000) = Num (of_nat 100000000)"
    by (simp only: Math_round_of_nat)
  have b: "(0::nat) < 2 \<and> (128::nat) < 16 ^ 2 \<and> (128::nat) < 2 ^ 53" "(100000000::nat) < 2 ^ 53"
    by simp_all
  from fixed_width_encoding_of_fitting_value
         [where x = NaN and sz = 2 and n = 128 and q = 1 and m = 100000000]
    f b
  show ?thesis by simp
qed

text \<open>The literal \<open>2.5e-8\<close>: the double nearest to it times \<open>10^8\<close> is the double \<open>2.5\<close>,
  which \<open>Math.round\<close> takes to 3.\<close>

lemma double_25e_9:
  "double (25 / 1000000000) = Num (944473296573929 / 37778931862957161709568)"
proof -
  have "fl (25 / 1000000000) = of_int 7555786372591432 * 2 powi (- 26 - 52)"
    by (rule fl_eqI) (simp_all add: power_int_minus)
  then have "fl (25 / 1000000000) = 944473296573929 / 37778931862957161709568"
    by (simp add: power_int_minus)
  then show ?thesis by (simp add: double_def)
qed

lemma mulN_25e_9:
  "mulN (Num (944473296573929 / 37778931862957161709568)) 100000000 = Num (5 / 2)"
proof -
  have "fl (944473296573929 / 37778931862957161709568 * 100000000)
      = of_int 5629499534213120 * 2 powi (1 - 52)"
    by (rule fl_eqI) (simp_all add: power_int_minus)
  then have "fl (944473296573929 / 37778931862957161709568 * 100000000) = 5 / 2"
    by (simp add: power_int_minus)
  then show ?thesis by (simp add: double_def)
qed

lemma num2fixed8_25e_9: "num2fixed8 (double (25 / 1000000000)) = Inr ''0300000000000000''"
proof -
  have "\<lfloor>(5 / 2 :: rat) + 1 / 2\<rfloor> = 3" by (rule floor_unique) simp_all
  then have "Math_round (Num (5 / 2)) = Num 3" by simp
  then have "Math_round (mulN (double (25 / 1000000000)) 100000000) = Num 3"
    by (simp only: double_25e_9 mulN_25e_9)
  then show ?thesis by (simp only: num2fixed8_def) (simp add: utils_eval)
qed

section \<open>The GAS cost ceiling\<close>

text \<open>The multiples of \<open>10^8\<close> below \<open>2^61\<close> are doubles: \<open>10^8 = 390625 * 2^8\<close>.\<close>

lemma double_D_multiple:
  assumes "100000000 * c < (2::nat) ^ 61"
  shows "double (of_nat (100000000 * c)) = Num (of_nat (100000000 * c))"
proof -
  have m: "390625 * c < (2::nat) ^ 53" using assms by simp
  have e: "(of_nat (100000000 * c) :: rat) = of_nat (390625 * c) * 2 ^ 8" by simp
  have "(of_nat (100000000 * c) :: rat) < of_nat (2 ^ 61)" using assms by (simp only: of_nat_less_iff)
  also have "\<dots> < 2 ^ 1024" by simp
  finally have r: "(of_nat (390625 * c) :: rat) * 2 ^ 8 < 2 ^ 1024" by (simp only: e)
  from double_exact [OF m r] show ?thesis by (simp only: e)
qed

lemma jsRem_of_nat: "jsRem (of_nat n) D = of_nat (n mod 100000000)"
proof -
  have "(of_nat n :: rat) / D = of_int (int n) / of_int 100000000" by (simp add: D_def)
  moreover have "(0::rat) \<le> of_int (int n) / of_int 100000000" by simp
  ultimately have "truncQ (of_nat n / D) = int n div 100000000"
    unfolding truncQ_def by (simp only: if_True floor_divide_of_int_eq)
  also have "\<dots> = int (n div 100000000)" by (simp add: zdiv_int)
  finally have "jsRem (of_nat n) D = of_nat n - of_nat 100000000 * of_nat (n div 100000000)"
    by (simp add: jsRem_def D_def)
  also have "\<dots> = of_nat (n - 100000000 * (n div 100000000))"
    by (simp add: of_nat_diff)
  also have "n - 100000000 * (n div 100000000) = n mod 100000000"
    by (simp add: minus_mult_div_eq_mod)
  finally show ?thesis .
qed

lemma ceil_div_D:
  "(n + 99999999) div 100000000 =
     (if n mod 100000000 = 0 then n div 100000000 else n div 100000000 + 1)" for n :: nat
proof -
  define q r where "q = n div 100000000" and "r = n mod 100000000"
  have n: "n = 100000000 * q + r" and r: "r < 100000000" by (simp_all add: q_def r_def)
  have "(n + 99999999) div 100000000 = q + (r + 99999999) div 100000000"
    by (simp add: n add.assoc)
  moreover have "(r + 99999999) div 100000000 = (if r = 0 then 0 else 1)"
    using r by (auto simp: div_nat_eqI)
  ultimately show ?thesis by (simp add: q_def r_def)
qed

lemma ceiling_over_D: "\<lceil>(of_nat n :: rat) / D\<rceil> = int ((n + 99999999) div 100000000)"
proof -
  have "(of_nat n :: rat) / D = of_int (int n) / of_int 100000000" by (simp add: D_def)
  then have "\<lceil>(of_nat n :: rat) / D\<rceil> = - ((- int n) div 100000000)"
    by (simp only: ceiling_divide_eq_div)
  also have "\<dots> = int ((n + 99999999) div 100000000)"
  proof -
    have "int (n mod 100000000) = int n mod 100000000" using zmod_int [of n 100000000] by simp
    then have z: "int n mod 100000000 = 0 \<longleftrightarrow> n mod 100000000 = 0"
      by (metis of_nat_eq_0_iff)
    show ?thesis
      by (simp only: ceil_div_D zdiv_zminus1_eq_if z) (simp add: zdiv_int)
  qed
  finally show ?thesis .
qed

lemma fixed8GasCeil_round:
  assumes "Math_round x = Num (of_nat n)" "n + 100000000 \<le> 2 ^ 61"
  shows "fixed8GasCeil x = Num (of_nat (100000000 * ((n + 99999999) div 100000000)))"
proof (cases "n = 0")
  case True
  with assms(1) show ?thesis by (simp add: fixed8GasCeil_def)
next
  case False
  have rem: "jsRem (of_nat n) D = of_nat (n mod 100000000)" by (rule jsRem_of_nat)
  show ?thesis
  proof (cases "n mod 100000000 = 0")
    case True
    then have "100000000 * ((n + 99999999) div 100000000) = n"
      using mult_div_mod_eq [of 100000000 n] by (simp add: ceil_div_D)
    with True False assms(1) rem show ?thesis by (simp add: fixed8GasCeil_def)
  next
    case nz: False
    define c where "c = n div 100000000"
    have n: "n = 100000000 * c + n mod 100000000" by (simp add: c_def)
    have "100000000 * c < n" using n nz by linarith
    then have up: "100000000 * (c + 1) < 2 ^ 61" using assms(2) by simp
    then have lo: "100000000 * c < 2 ^ 61" by simp
    have "(of_nat n :: rat) - of_nat (n mod 100000000) = of_nat (100000000 * c)"
      by (subst n) (simp del: of_nat_mod)
    then have s: "subN (Num (of_nat n)) (of_nat (n mod 100000000)) = Num (of_nat (100000000 * c))"
      by (simp only: subN.simps double_D_multiple [OF lo])
    have "(of_nat (100000000 * c) :: rat) + D = of_nat (100000000 * (c + 1))"
      by (simp add: D_def)
    then have a: "addN (Num (of_nat (100000000 * c))) D = Num (of_nat (100000000 * (c + 1)))"
      by (simp only: addN.simps double_D_multiple [OF up])
    have cd: "(n + 99999999) div 100000000 = c + 1" using nz by (simp add: ceil_div_D c_def)
    have gt: "(0::rat) < of_nat (n mod 100000000)" using nz by simp
    have ne: "(of_nat (n mod 100000000) :: rat) \<noteq> 0" using nz by simp
    have n0: "(of_nat n :: rat) \<noteq> 0" using False by simp
    show ?thesis
      by (simp only: fixed8GasCeil_def assms(1) number.case n0 if_False Let_def rem ne gt
            not_False_eq_True if_True s a cd)
  qed
qed

lemma gasCostCeil_round:
  assumes "Math_round (mulN x D) = Num (of_nat n)" "n + 100000000 \<le> 2 ^ 61"
  shows "gasCostCeil x = Num (of_nat ((n + 99999999) div 100000000))"
proof -
  define c where "c = (n + 99999999) div 100000000"
  have "100000000 * c \<le> n + 99999999" by (simp add: c_def)
  then have c: "c < 2 ^ 53" using assms(2) by simp
  have f: "fixed8GasCeil (mulN x D) = Num (of_nat (100000000 * c))"
    using fixed8GasCeil_round [OF assms] by (simp only: c_def)
  have "(of_nat (100000000 * c) :: rat) / D = of_nat c" by (simp add: D_def)
  then have "divN (Num (of_nat (100000000 * c))) D = Num (of_nat c)"
    using double_of_nat [OF c] by (simp add: D_def)
  then show ?thesis by (simp add: gasCostCeil_def f c_def [symmetric])
qed


text \<open>The literal \<open>0.30000001\<close> denotes the double nearest to it; its product with
  \<open>10^8\<close>, rounded to a double, is within a half of 30000001.\<close>

lemma double_30000001:
  "\<exists>g. double (30000001 / 100000000) = Num g \<and> Math_round (mulN (Num g) D) = Num (of_nat 30000001)"
proof -
  define x :: rat where "x = 30000001 / 100000000"
  have x: "2 powi (- 1022) \<le> x" "x < 1 / 2" "1 / 4 < x"
    by (simp_all add: x_def power_int_minus field_simps)
  from fl_error [OF x(1)] have e1: "\<bar>fl x - x\<bar> \<le> x / 2 ^ 53" .
  then have "x - fl x \<le> x / 2 ^ 53" "fl x - x \<le> x / 2 ^ 53" by linarith+
  then have g: "1 / 8 < fl x" "fl x < 1" using x(2,3) by simp_all
  then have d: "double x = Num (fl x)" by (intro double_finite) simp
  define p where "p = fl x * D"
  have "p - 30000001 = (fl x - x) * D" by (simp add: p_def x_def D_def algebra_simps)
  then have "\<bar>p - 30000001\<bar> = \<bar>fl x - x\<bar> * \<bar>D\<bar>" by (simp only: abs_mult)
  also have "\<bar>D\<bar> = D" by (simp add: D_def)
  finally have "\<bar>p - 30000001\<bar> = \<bar>fl x - x\<bar> * D" .
  also have "\<dots> \<le> x / 2 ^ 53 * D" using e1 by (intro mult_right_mono) (simp_all add: D_def)
  also have "\<dots> < 1 / 8" by (simp add: x_def D_def)
  finally have p: "\<bar>p - 30000001\<bar> < 1 / 8" .
  then have pr: "1 \<le> p" "p < 30000002" by linarith+
  have "(2::rat) powi (- 1022) \<le> 1" by (simp add: power_int_minus field_simps)
  with pr(1) have "2 powi (- 1022) \<le> p" by simp
  from fl_error [OF this] have "\<bar>fl p - p\<bar> \<le> p / 2 ^ 53" .
  also have "\<dots> < 1 / 8" using pr(2) by simp
  finally have e2: "\<bar>fl p - p\<bar> < 1 / 8" .
  from p have p1: "p - 30000001 < 1 / 8" "30000001 - p < 1 / 8" by linarith+
  from e2 have p2: "fl p - p < 1 / 8" "p - fl p < 1 / 8" by linarith+
  from p1 p2 have b: "fl p - 30000001 < 1 / 2" "30000001 - fl p < 1 / 2" "0 < fl p" "fl p < 30000002"
    by linarith+
  then have "\<bar>fl p - 30000001\<bar> < 1 / 2" by linarith
  then have near: "\<bar>fl p - of_nat 30000001\<bar> < 1 / 2" by simp
  from b have "\<bar>fl p\<bar> < 30000002" by linarith
  then have "\<bar>fl p\<bar> < 2 ^ 1024" by simp
  then have "mulN (Num (fl x)) D = Num (fl p)" by (simp add: p_def double_finite)
  with Math_round_near [OF near] d show ?thesis by (simp add: x_def)
qed

lemma gasCostCeil_examples:
  "gasCostCeil (double (30000001 / 100000000)) = Num 1"
  "gasCostCeil (Num 1) = Num 1"
  "gasCostCeil (Num 0) = Num 0"
proof -
  from double_30000001 obtain g where g: "double (30000001 / 100000000) = Num g"
    "Math_round (mulN (Num g) D) = Num (of_nat 30000001)" by blast
  from gasCostCeil_round [OF g(2)] show "gasCostCeil (double (30000001 / 100000000)) = Num 1"
    by (simp add: g(1))
  have "mulN (Num 1) D = Num (of_nat 100000000)"
    using double_of_nat [of 100000000] by (simp add: D_def)
  then have "Math_round (mulN (Num 1) D) = Num (of_nat 100000000)"
    by (simp only: Math_round_of_nat)
  from gasCostCeil_round [OF this] show "gasCostCeil (Num 1) = Num 1" by simp
  have "mulN (Num 0) D = Num (of_nat 0)" by (simp add: double_zero)
  then have "Math_round (mulN (Num 0) D) = Num (of_nat 0)"
    by (simp only: Math_round_of_nat)
  from gasCostCeil_round [OF this] show "gasCostCeil (Num 0) = Num 0" by simp
qed

lemma mulN_overflow: "mulN (Num (2 ^ 1000)) D = Infinity"
proof -
  have e: "(2::rat) ^ 1000 * D = of_nat 390625 * 2 ^ 1008" by (simp add: D_def)
  have "fl ((2::rat) ^ 1000 * D) = of_nat 390625 * 2 ^ 1008"
    unfolding e by (rule fl_exact) simp
  then show ?thesis by (simp add: double_def D_def)
qed

text \<open>The literal \<open>1.000000005\<close>: the double nearest to it is below it, but its product
  with \<open>10^8\<close> rounds to the double \<open>100000000.5\<close>; the Fixed8 value of the code is
  100000001 and the cost 2.\<close>

lemma double_1000000005:
  "double (1000000005 / 1000000000) = Num (2251799824944247 / 2251799813685248)"
proof -
  have "fl (1000000005 / 1000000000) = of_int 4503599649888494 * 2 powi (0 - 52)"
    by (rule fl_eqI) (simp_all add: power_int_minus)
  then have "fl (1000000005 / 1000000000) = 2251799824944247 / 2251799813685248"
    by (simp add: power_int_minus)
  then show ?thesis by (simp add: double_def)
qed

lemma mulN_1000000005:
  "mulN (Num (2251799824944247 / 2251799813685248)) D = Num (200000001 / 2)"
proof -
  have "fl (2251799824944247 / 2251799813685248 * 100000000)
      = of_int 6710886433554432 * 2 powi (26 - 52)"
    by (rule fl_eqI) (simp_all add: power_int_minus)
  then have "fl (2251799824944247 / 2251799813685248 * 100000000) = 200000001 / 2"
    by (simp add: power_int_minus)
  then show ?thesis by (simp add: double_def D_def)
qed

lemma gasCostCeil_1000000005: "gasCostCeil (double (1000000005 / 1000000000)) = Num 2"
proof -
  have "\<lfloor>(200000001 / 2 :: rat) + 1 / 2\<rfloor> = 100000001" by (rule floor_unique) simp_all
  then have "Math_round (Num (200000001 / 2)) = Num (of_nat 100000001)" by simp
  then have "Math_round (mulN (double (1000000005 / 1000000000)) D) = Num (of_nat 100000001)"
    by (simp only: double_1000000005 mulN_1000000005)
  from gasCostCeil_round [OF this] show ?thesis by simp
qed

text \<open>Claim C5, as stated for every non-negative amount, fails. With the amount scaled
  exactly: the double nearest to 1.000000005 is, in Fixed8 units, nearest to 100000000, one
  whole GAS, but \<open>gasCostCeil\<close> returns 2. With the amount scaled as the code does: the
  product of the amount \<open>2^1000\<close> with \<open>10^8\<close> overflows to \<open>Infinity\<close>, whose remainder
  is \<open>NaN\<close>, and \<open>gasCostCeil\<close> returns \<open>NaN\<close>, which is no whole number of GAS.\<close>

theorem gasCostCeil_rounding_and_overflow:
  "double (1000000005 / 1000000000) = Num (2251799824944247 / 2251799813685248) \<and>
   \<lceil>of_int \<lfloor>2251799824944247 / 2251799813685248 * D + 1 / 2\<rfloor> / D\<rceil> = 1 \<and>
   gasCostCeil (Num (2251799824944247 / 2251799813685248)) = Num 2 \<and>
   gasCostCeil (Num (2 ^ 1000)) = NaN \<and>
   (\<forall>z. gasCostCeil (Num (2 ^ 1000)) \<noteq> Num z)"
proof -
  have f: "\<lfloor>2251799824944247 / 2251799813685248 * D + 1 / 2\<rfloor> = 100000000"
    by (rule floor_unique) (simp_all add: D_def)
  have c: "\<lceil>of_int 100000000 / D\<rceil> = 1"
    by (rule ceiling_unique) (simp_all add: D_def)
  have g: "gasCostCeil (Num (2251799824944247 / 2251799813685248)) = Num 2"
    using gasCostCeil_1000000005 by (simp only: double_1000000005)
  have n: "gasCostCeil (Num (2 ^ 1000)) = NaN"
    by (simp only: gasCostCeil_def Let_def mulN_overflow fixed8GasCeil_def Math_round.simps
          number.case divN.simps Math_floor.simps)
  show ?thesis by (simp only: f c g n double_1000000005) simp
qed

text \<open>Claim C5, amended. \<open>gasCostCeil\<close> of 0.30000001, of 1 and of 0 is 1, 1 and 0; for
  every amount \<open>g\<close> whose Fixed8 value \<open>n = Math.round(g * 10^8)\<close>, as the code computes
  it in double arithmetic, is a non-negative integer with \<open>n + 10^8 \<le> 2^61\<close>,
  \<open>fixed8GasCeil\<close> takes \<open>n\<close> up to the next multiple of \<open>10^8\<close>, and \<open>gasCostCeil\<close> is
  that multiple divided by \<open>10^8\<close>.\<close>

theorem gasCostCeil_whole_gas:
  "gasCostCeil (double (30000001 / 100000000)) = Num 1 \<and>
   gasCostCeil (Num 1) = Num 1 \<and>
   gasCostCeil (Num 0) = Num 0 \<and>
   (\<forall>g n. Math_round (mulN (Num g) D) = Num (of_nat n) \<and> n + 10 ^ 8 \<le> 2 ^ 61 \<longrightarrow>
      fixed8GasCeil (mulN (Num g) D) = Num (D * of_int \<lceil>of_nat n / D\<rceil>) \<and>
      gasCostCeil (Num g) = Num (of_int \<lceil>of_nat n / D\<rceil>))"
proof (intro conjI allI impI)
  show "gasCostCeil (double (30000001 / 100000000)) = Num 1" by (rule gasCostCeil_examples)
  show "gasCostCeil (Num 1) = Num 1" by (rule gasCostCeil_examples)
  show "gasCostCeil (Num 0) = Num 0" by (rule gasCostCeil_examples)
next
  fix g :: rat and n :: nat
  assume a: "Math_round (mulN (Num g) D) = Num (of_nat n) \<and> n + 10 ^ 8 \<le> 2 ^ 61"
  then have r: "Math_round (mulN (Num g) D) = Num (of_nat n)" and b: "n + 100000000 \<le> 2 ^ 61"
    by simp_all
  from gasCostCeil_round [OF r b]
  show "gasCostCeil (Num g) = Num (of_int \<lceil>of_nat n / D\<rceil>)"
    by (simp only: ceiling_over_D of_int_of_nat_eq)
  from fixed8GasCeil_round [OF r b]
  show "fixed8GasCeil (mulN (Num g) D) = Num (D * of_int \<lceil>of_nat n / D\<rceil>)"
    by (simp only: ceiling_over_D of_int_of_nat_eq) (simp add: D_def)
qed

theorem gasCostCeil_whole_gas_witness:
  "Math_round (mulN (Num (5 / 2)) D) = Num (of_nat 250000000) \<and>
   (250000000::nat) + 10 ^ 8 \<le> 2 ^ 61 \<and>
   fixed8GasCeil (mulN (Num (5 / 2)) D) = Num 300000000 \<and>
   gasCostCeil (Num (5 / 2)) = Num 3"
proof -
  have "mulN (Num (5 / 2)) D = Num (of_nat 250000000)"
    using double_of_nat [of 250000000] by (simp add: D_def)
  then have "Math_round (mulN (Num (5 / 2)) D) = Num (of_nat 250000000)"
    by (simp only: Math_round_of_nat)
  then have h: "Math_round (mulN (Num (5 / 2)) D) = Num (of_nat 250000000) \<and>
      (250000000::nat) + 10 ^ 8 \<le> 2 ^ 61" by simp
  have c: "\<lceil>(of_nat 250000000 :: rat) / D\<rceil> = 3"
    by (rule ceiling_unique) (simp_all add: D_def)
  note gasCostCeil_whole_gas [THEN conjunct2, THEN conjunct2, THEN conjunct2, rule_format, OF h]
  then have "fixed8GasCeil (mulN (Num (5 / 2)) D) = Num (D * 3) \<and> gasCostCeil (Num (5 / 2)) = Num 3"
    unfolding c by simp
  with h show ?thesis by (simp add: D_def)
qed

text \<open>Every amount from 0 to \<open>10^10\<close> GAS has a Fixed8 value within the bound.\<close>

lemma gasCostCeil_domain:
  assumes "0 \<le> g" "g \<le> 10 ^ 10"
  shows "\<exists>n. Math_round (mulN (Num g) D) = Num (of_nat n) \<and> n + 10 ^ 8 \<le> 2 ^ 61"
proof -
  define x where "x = g * D"
  have x: "0 \<le> x" "x \<le> of_nat 3814697265625 * 2 ^ 18"
    using assms by (simp_all add: x_def D_def)
  have lo: "0 \<le> fl x" using x(1) by (rule fl_nonneg)
  have "fl x \<le> of_nat 3814697265625 * 2 ^ 18" using x by (rule fl_le_double) simp
  then have hi: "fl x \<le> 1000000000000000000" by simp
  from lo hi have "\<bar>fl x\<bar> < 2 ^ 1024" by simp
  then have m: "mulN (Num g) D = Num (fl x)" by (simp add: x_def double_finite)
  define z where "z = \<lfloor>fl x + 1 / 2\<rfloor>"
  have z0: "0 \<le> z" using lo by (simp add: z_def)
  have "fl x + 1 / 2 < of_int 1000000000000000001" using hi by simp
  then have "z < 1000000000000000001" unfolding z_def by (simp only: floor_less_iff)
  then have z1: "nat z + 10 ^ 8 \<le> 2 ^ 61" using z0 by simp
  have "Math_round (mulN (Num g) D) = Num (of_int z)" by (simp only: m Math_round.simps z_def)
  also have "of_int z = (of_nat (nat z) :: rat)" using z0 by simp
  finally show ?thesis using z1 by blast
qed

section \<open>Serialization with and without witnesses\<close>

text \<open>Claim C9. Without witnesses (\<open>tx.scripts\<close> absent or empty) the flag \<open>signed\<close>
  changes nothing: no count of witnesses is written.\<close>

theorem serializeTransaction_without_witness:
  assumes "scripts tx = None \<or> scripts tx = Some []"
  shows "serializeTransaction sz tx True = serializeTransaction sz tx False"
  using assms by (auto simp: serializeTransaction_def split: option.split)

theorem serializeTransaction_without_witness_witness:
  "serializeTransaction toy_serialize
      \<lparr>type = Num 128, version = Num 0, attributes = [], inputs = [''aa''], outputs = [''bb'', ''cc''],
       scripts = Some [], exclusiveData = ()\<rparr> True = Inr ''80000001aa02bbcc'' \<and>
   serializeTransaction toy_serialize
      \<lparr>type = Num 128, version = Num 0, attributes = [], inputs = [''aa''], outputs = [''bb'', ''cc''],
       scripts = Some [], exclusiveData = ()\<rparr> False = Inr ''80000001aa02bbcc''"
  using serializeTransaction_without_witness [of
      "\<lparr>type = Num 128, version = Num 0, attributes = [], inputs = [''aa''], outputs = [''bb'', ''cc''],
       scripts = Some [], exclusiveData = ()\<rparr>" toy_serialize]
  by (simp add: serializeTransaction_def toy_serialize_def utils_eval)

section \<open>Deserializing a serialized transaction\<close>

lemma appendAll_pushAll:
  assumes "\<forall>x \<in> set xs. \<exists>s. f x = Inr s \<and> reads_back d s x"
  shows "\<exists>enc. (\<forall>out. appendAll f xs out = Inr (out @ enc)) \<and> reads_all d enc xs"
  using assms
proof (induction xs)
  case Nil
  have "reads_all d [] []" by (simp add: reads_all_def)
  then show ?case by (intro exI [of _ "[]"]) simp
next
  case (Cons x xs)
  then obtain s where s: "f x = Inr s" "reads_back d s x" by auto
  from Cons obtain enc where enc: "\<forall>out. appendAll f xs out = Inr (out @ enc)" "reads_all d enc xs"
    by auto
  have "reads_all d (s @ enc) (x # xs)"
    unfolding reads_all_def
  proof (intro allI)
    fix pre post arr
    have 1: "d \<lparr>str = pre @ (s @ enc) @ post, pter = length pre\<rparr>
        = Inr (x, \<lparr>str = pre @ (s @ enc) @ post, pter = length pre + length s\<rparr>)"
      using s(2) [unfolded reads_back_def, THEN spec [where x = pre],
          THEN spec [where x = "enc @ post"]] by simp
    have 2: "pushAll (length xs) d (arr @ [x]) \<lparr>str = pre @ (s @ enc) @ post, pter = length pre + length s\<rparr>
        = Inr ((arr @ [x]) @ xs, \<lparr>str = pre @ (s @ enc) @ post, pter = length pre + length (s @ enc)\<rparr>)"
      using enc(2) [unfolded reads_all_def, THEN spec [where x = "pre @ s"],
          THEN spec [where x = post], THEN spec [where x = "arr @ [x]"]] by simp
    show "pushAll (length (x # xs)) d arr \<lparr>str = pre @ (s @ enc) @ post, pter = length pre\<rparr> =
       Inr (arr @ x # xs, \<lparr>str = pre @ (s @ enc) @ post, pter = length pre + length (s @ enc)\<rparr>)"
      using 1 2 by simp
  qed
  moreover have "\<forall>out. appendAll f (x # xs) out = Inr (out @ s @ enc)"
    using s(1) enc(1) by simp
  ultimately show ?case by blast
qed

lemma read_two:
  assumes "length s = 2"
  shows "read \<lparr>str = pre @ s @ post, pter = length pre\<rparr> 1
     = Inr (s, \<lparr>str = pre @ s @ post, pter = length pre + 2\<rparr>)"
  using assms by (simp add: read_def isEmpty_def)

lemma num2hexstring_byte:
  assumes "n < 256"
  shows "length (num2hexstring (Num (of_nat n)) 2) = 2"
    and "parseInt (num2hexstring (Num (of_nat n)) 2) = Num (of_nat n)"
proof -
  have n: "n < 16 ^ 2" using assms by simp
  show "length (num2hexstring (Num (of_nat n)) 2) = 2"
    using num2hexstring_fits [of 2 n] n by simp
  show "parseInt (num2hexstring (Num (of_nat n)) 2) = Num (of_nat n)"
    using num2hexstring_fits(1) [of 2 n] n by (simp add: parseInt_padded)
qed

lemma num2VarInt_small:
  assumes "n < 0xfd"
  shows "num2VarInt (Num (of_nat n)) = num2hexstring (Num (of_nat n)) 2"
  using assms by (simp add: num2VarInt_def)

lemma readVarInt_small:
  assumes "n < 0xfd"
  shows "readVarInt \<lparr>str = pre @ num2VarInt (Num (of_nat n)) @ post, pter = length pre\<rparr>
     = Inr (Num (of_nat n), \<lparr>str = pre @ num2VarInt (Num (of_nat n)) @ post, pter = length pre + 2\<rparr>)"
proof -
  have n: "n < 256" using assms by simp
  have ne: "n \<noteq> 253" "n \<noteq> 254" "n \<noteq> 255"
    using assms by simp_all
  show ?thesis
    unfolding num2VarInt_small [OF assms] readVarInt_def
    by (simp add: read_two [unfolded One_nat_def] num2hexstring_byte [OF n] ne Let_def)
qed

text \<open>What \<open>deserializeTransaction\<close> returns on the unsigned serialization of a
  transaction, for every pair of tables whose deserializers read back what the serializers
  write, with fewer than \<open>0xfd\<close> entries in each list and a type and a version of one byte:
  the attributes come back at the head of \<open>inputs\<close>, and \<open>attributes\<close> is empty.\<close>

lemma deserializeTransaction_serializeTransaction:
  assumes ty: "type tx = Num (of_nat t)" "t < 256"
    and ver: "version tx = Num (of_nat v)" "v < 256"
    and len: "length (attributes tx) < 0xfd" "length (inputs tx) < 0xfd"
      "length (outputs tx) < 0xfd"
    and sex: "serialize_exclusiveData sz (type tx) = Some se" "se tx = Inr exs"
    and dex: "deserialize_exclusiveData dz (type tx) = Some de"
      "reads_back de exs (exclusiveData tx)"
    and attrs: "\<forall>a \<in> set (attributes tx).
        \<exists>s. serialize_attribute sz a = Inr s \<and> reads_back (deserialize_attribute dz) s a"
    and ins: "\<forall>i \<in> set (inputs tx).
        \<exists>s. serialize_input sz i = Inr s \<and> reads_back (deserialize_input dz) s i"
    and outs: "\<forall>out \<in> set (outputs tx).
        \<exists>s. serialize_output sz out = Inr s \<and> reads_back (deserialize_output dz) s out"
  shows "\<exists>data. serializeTransaction sz tx False = Inr data \<and>
           deserializeTransaction dz data
             = Inr (tx\<lparr>attributes := [], inputs := attributes tx @ inputs tx, scripts := Some []\<rparr>)"
proof -
  obtain As where As: "\<forall>out. appendAll (serialize_attribute sz) (attributes tx) out = Inr (out @ As)"
      "reads_all (deserialize_attribute dz) As (attributes tx)"
    using appendAll_pushAll [OF attrs] by blast
  obtain Is where Is: "\<forall>out. appendAll (serialize_input sz) (inputs tx) out = Inr (out @ Is)"
      "reads_all (deserialize_input dz) Is (inputs tx)"
    using appendAll_pushAll [OF ins] by blast
  obtain Os where Os: "\<forall>out. appendAll (serialize_output sz) (outputs tx) out = Inr (out @ Os)"
      "reads_all (deserialize_output dz) Os (outputs tx)"
    using appendAll_pushAll [OF outs] by blast
  define Ht where "Ht = num2hexstring (Num (of_nat t)) 2"
  define Hv where "Hv = num2hexstring (Num (of_nat v)) 2"
  define Va where "Va = num2VarInt (Num (of_nat (length (attributes tx))))"
  define Vi where "Vi = num2VarInt (Num (of_nat (length (inputs tx))))"
  define Vo where "Vo = num2VarInt (Num (of_nat (length (outputs tx))))"
  define data where "data = Ht @ Hv @ exs @ Va @ As @ Vi @ Is @ Vo @ Os"
  have lHt: "length Ht = 2" and pHt: "parseInt Ht = Num (of_nat t)"
    unfolding Ht_def using num2hexstring_byte [OF ty(2)] by simp_all
  have lHv: "length Hv = 2" and pHv: "parseInt Hv = Num (of_nat v)"
    unfolding Hv_def using num2hexstring_byte [OF ver(2)] by simp_all
  have ser: "serializeTransaction sz tx False = Inr data"
    using As(1) Is(1) Os(1)
    by (simp add: serializeTransaction_def sex(1) [unfolded ty(1)] sex(2) ty(1) ver(1) data_def Ht_def Hv_def Va_def Vi_def
        Vo_def Let_def split: option.split)
  define p1 where "p1 = length Ht"
  define p2 where "p2 = length (Ht @ Hv)"
  define p3 where "p3 = length (Ht @ Hv @ exs)"
  define p4 where "p4 = length (Ht @ Hv @ exs @ Va)"
  define p5 where "p5 = length (Ht @ Hv @ exs @ Va @ As)"
  define p6 where "p6 = length (Ht @ Hv @ exs @ Va @ As @ Vi)"
  define p7 where "p7 = length (Ht @ Hv @ exs @ Va @ As @ Vi @ Is)"
  define p8 where "p8 = length (Ht @ Hv @ exs @ Va @ As @ Vi @ Is @ Vo)"
  define p9 where "p9 = length data"
  have r1: "read \<lparr>str = data, pter = 0\<rparr> 1 = Inr (Ht, \<lparr>str = data, pter = p1\<rparr>)"
    using read_two [OF lHt, of "[]" "Hv @ exs @ Va @ As @ Vi @ Is @ Vo @ Os"]
    by (simp add: data_def p1_def lHt)
  have r2: "read \<lparr>str = data, pter = p1\<rparr> 1 = Inr (Hv, \<lparr>str = data, pter = p2\<rparr>)"
    using read_two [OF lHv, of Ht "exs @ Va @ As @ Vi @ Is @ Vo @ Os"]
    by (simp add: data_def p1_def p2_def lHv)
  have r3: "de \<lparr>str = data, pter = p2\<rparr> = Inr (exclusiveData tx, \<lparr>str = data, pter = p3\<rparr>)"
    using dex(2) [unfolded reads_back_def, THEN spec [where x = "Ht @ Hv"],
        THEN spec [where x = "Va @ As @ Vi @ Is @ Vo @ Os"]]
    by (simp add: data_def p2_def p3_def)
  have lVa: "length Va = 2"
    unfolding Va_def num2VarInt_small [OF len(1)] using num2hexstring_byte(1) [of "length (attributes tx)"] len(1)
    by simp
  have lVi: "length Vi = 2"
    unfolding Vi_def num2VarInt_small [OF len(2)] using num2hexstring_byte(1) [of "length (inputs tx)"] len(2)
    by simp
  have lVo: "length Vo = 2"
    unfolding Vo_def num2VarInt_small [OF len(3)] using num2hexstring_byte(1) [of "length (outputs tx)"] len(3)
    by simp
  have r4: "readVarInt \<lparr>str = data, pter = p3\<rparr>
      = Inr (Num (of_nat (length (attributes tx))), \<lparr>str = data, pter = p4\<rparr>)"
    using readVarInt_small [OF len(1), of "Ht @ Hv @ exs" "As @ Vi @ Is @ Vo @ Os"] lVa
    by (simp add: data_def p3_def p4_def Va_def)
  have r5: "pushAll (length (attributes tx)) (deserialize_attribute dz) [] \<lparr>str = data, pter = p4\<rparr>
      = Inr (attributes tx, \<lparr>str = data, pter = p5\<rparr>)"
    using As(2) [unfolded reads_all_def, THEN spec [where x = "Ht @ Hv @ exs @ Va"],
        THEN spec [where x = "Vi @ Is @ Vo @ Os"], THEN spec [where x = "[]"]]
    by (simp add: data_def p4_def p5_def)
  have r6: "readVarInt \<lparr>str = data, pter = p5\<rparr>
      = Inr (Num (of_nat (length (inputs tx))), \<lparr>str = data, pter = p6\<rparr>)"
    using readVarInt_small [OF len(2), of "Ht @ Hv @ exs @ Va @ As" "Is @ Vo @ Os"] lVi
    by (simp add: data_def p5_def p6_def Vi_def)
  have r7: "pushAll (length (inputs tx)) (deserialize_input dz) (attributes tx) \<lparr>str = data, pter = p6\<rparr>
      = Inr (attributes tx @ inputs tx, \<lparr>str = data, pter = p7\<rparr>)"
    using Is(2) [unfolded reads_all_def, THEN spec [where x = "Ht @ Hv @ exs @ Va @ As @ Vi"],
        THEN spec [where x = "Vo @ Os"], THEN spec [where x = "attributes tx"]]
    by (simp add: data_def p6_def p7_def)
  have r8: "readVarInt \<lparr>str = data, pter = p7\<rparr>
      = Inr (Num (of_nat (length (outputs tx))), \<lparr>str = data, pter = p8\<rparr>)"
    using readVarInt_small [OF len(3), of "Ht @ Hv @ exs @ Va @ As @ Vi @ Is" Os] lVo
    by (simp add: data_def p7_def p8_def Vo_def)
  have r9: "pushAll (length (outputs tx)) (deserialize_output dz) [] \<lparr>str = data, pter = p8\<rparr>
      = Inr (outputs tx, \<lparr>str = data, pter = p9\<rparr>)"
    using Os(2) [unfolded reads_all_def, THEN spec [where x = "Ht @ Hv @ exs @ Va @ As @ Vi @ Is @ Vo"],
        THEN spec [where x = "[]"], THEN spec [where x = "[]"]]
    by (simp add: data_def p8_def p9_def)
  have e: "isEmpty \<lparr>str = data, pter = p9\<rparr>"
    by (simp add: isEmpty_def p9_def)
  have "deserializeTransaction dz data
      = Inr \<lparr>type = Num (of_nat t), version = Num (of_nat v), attributes = [],
             inputs = attributes tx @ inputs tx, outputs = outputs tx, scripts = Some [],
             exclusiveData = exclusiveData tx\<rparr>"
    unfolding deserializeTransaction_def
    by (simp add: r1 [unfolded One_nat_def] r2 [unfolded One_nat_def] r3 r4 r5 r6 r7 r8 r9 e pHt pHv
        dex(1) [unfolded ty(1)] Let_def)
  also have "\<lparr>type = Num (of_nat t), version = Num (of_nat v), attributes = [],
             inputs = attributes tx @ inputs tx, outputs = outputs tx, scripts = Some [],
             exclusiveData = exclusiveData tx\<rparr>
      = tx\<lparr>attributes := [], inputs := attributes tx @ inputs tx, scripts := Some []\<rparr>"
    using ty(1) ver(1) by (cases tx) simp
  finally show ?thesis using ser by blast
qed

text \<open>Without attributes, and with an empty list of witnesses, the round trip holds.\<close>

lemma deserializeTransaction_round_trip_without_attributes:
  assumes "type tx = Num (of_nat t)" "t < 256"
    and "version tx = Num (of_nat v)" "v < 256"
    and "length (attributes tx) < 0xfd" "length (inputs tx) < 0xfd"
      "length (outputs tx) < 0xfd"
    and "serialize_exclusiveData sz (type tx) = Some se" "se tx = Inr exs"
    and "deserialize_exclusiveData dz (type tx) = Some de"
      "reads_back de exs (exclusiveData tx)"
    and "\<forall>a \<in> set (attributes tx).
        \<exists>s. serialize_attribute sz a = Inr s \<and> reads_back (deserialize_attribute dz) s a"
    and "\<forall>i \<in> set (inputs tx).
        \<exists>s. serialize_input sz i = Inr s \<and> reads_back (deserialize_input dz) s i"
    and "\<forall>out \<in> set (outputs tx).
        \<exists>s. serialize_output sz out = Inr s \<and> reads_back (deserialize_output dz) s out"
    and none: "attributes tx = []" "scripts tx = Some []"
  shows "\<exists>data. serializeTransaction sz tx False = Inr data \<and>
           deserializeTransaction dz data = Inr tx"
proof -
  have "tx\<lparr>attributes := [], inputs := attributes tx @ inputs tx, scripts := Some []\<rparr> = tx"
    using none by (cases tx) simp
  with deserializeTransaction_serializeTransaction [OF assms(1-14)] show ?thesis by simp
qed

text \<open>Claim C1. The round trip does not return the transaction when it has an attribute: the
  first loop of \<open>deserializeTransaction\<close> pushes onto \<open>tx.inputs\<close>, so the attributes are
  recovered into the input list and the attribute list comes back empty.\<close>

theorem deserializeTransaction_attributes_become_inputs:
  assumes "type tx = Num (of_nat t)" "t < 256"
    and "version tx = Num (of_nat v)" "v < 256"
    and "length (attributes tx) < 0xfd" "length (inputs tx) < 0xfd"
      "length (outputs tx) < 0xfd"
    and "serialize_exclusiveData sz (type tx) = Some se" "se tx = Inr exs"
    and "deserialize_exclusiveData dz (type tx) = Some de"
      "reads_back de exs (exclusiveData tx)"
    and "\<forall>a \<in> set (attributes tx).
        \<exists>s. serialize_attribute sz a = Inr s \<and> reads_back (deserialize_attribute dz) s a"
    and "\<forall>i \<in> set (inputs tx).
        \<exists>s. serialize_input sz i = Inr s \<and> reads_back (deserialize_input dz) s i"
    and "\<forall>out \<in> set (outputs tx).
        \<exists>s. serialize_output sz out = Inr s \<and> reads_back (deserialize_output dz) s out"
  shows "\<exists>data. serializeTransaction sz tx False = Inr data \<and>
           deserializeTransaction dz data
             = Inr (tx\<lparr>attributes := [], inputs := attributes tx @ inputs tx, scripts := Some []\<rparr>) \<and>
           (attributes tx \<noteq> [] \<longrightarrow> deserializeTransaction dz data \<noteq> Inr tx)"
proof -
  from deserializeTransaction_serializeTransaction [OF assms]
  obtain data where d: "serializeTransaction sz tx False = Inr data"
    "deserializeTransaction dz data
       = Inr (tx\<lparr>attributes := [], inputs := attributes tx @ inputs tx, scripts := Some []\<rparr>)"
    by blast
  have "deserializeTransaction dz data \<noteq> Inr tx" if "attributes tx \<noteq> []"
  proof
    assume "deserializeTransaction dz data = Inr tx"
    with d(2) have "tx\<lparr>attributes := [], inputs := attributes tx @ inputs tx, scripts := Some []\<rparr> = tx"
      by simp
    then have "attributes (tx\<lparr>attributes := [], inputs := attributes tx @ inputs tx, scripts := Some []\<rparr>)
        = attributes tx"
      by simp
    with that show False by simp
  qed
  with d show ?thesis by blast
qed

lemma reads_back_read: "length s = 2 \<Longrightarrow> reads_back (\<lambda>ss. read ss 1) s s"
  by (simp add: reads_back_def read_two [unfolded One_nat_def])

theorem deserializeTransaction_attributes_become_inputs_witness:
  "serializeTransaction toy_serialize
      \<lparr>type = Num 128, version = Num 0, attributes = [''20''], inputs = [''aa''], outputs = [],
       scripts = Some [], exclusiveData = ()\<rparr> False = Inr ''8000012001aa00'' \<and>
   deserializeTransaction toy_deserialize ''8000012001aa00''
     = Inr \<lparr>type = Num 128, version = Num 0, attributes = [], inputs = [''20'', ''aa''],
            outputs = [], scripts = Some [], exclusiveData = ()\<rparr>"
proof -
  let ?tx = "\<lparr>type = Num 128, version = Num 0, attributes = [''20''], inputs = [''aa''],
       outputs = [], scripts = Some [], exclusiveData = ()\<rparr> :: (string, unit) Transaction"
  have ser: "serializeTransaction toy_serialize ?tx False = Inr ''8000012001aa00''"
    by (simp add: serializeTransaction_def toy_serialize_def utils_eval)
  have "\<exists>data. serializeTransaction toy_serialize ?tx False = Inr data \<and>
      deserializeTransaction toy_deserialize data
        = Inr (?tx\<lparr>attributes := [], inputs := attributes ?tx @ inputs ?tx, scripts := Some []\<rparr>) \<and>
      (attributes ?tx \<noteq> [] \<longrightarrow> deserializeTransaction toy_deserialize data \<noteq> Inr ?tx)"
  proof (rule deserializeTransaction_attributes_become_inputs [where t = 128 and v = 0
        and se = "\<lambda>tx. Inr []" and exs = "[]" and de = "\<lambda>ss. Inr ((), ss)"])
    show "reads_back (\<lambda>ss. Inr ((), ss)) [] (exclusiveData ?tx)"
      by (simp add: reads_back_def)
  qed (simp_all add: toy_serialize_def toy_deserialize_def reads_back_read [unfolded One_nat_def])
  with ser show ?thesis by simp
qed

section \<open>Bytes and their hexadecimal text\<close>

lemma hexstr_two_digits:
  assumes "b < 256"
  shows "(if b < 16 then CHR ''0'' # hexstr b else hexstr b) = [hexdigit (b div 16), hexdigit (b mod 16)]"
proof (cases "b < 16")
  case True
  then show ?thesis by (subst hexstr.simps) (simp add: hexdigit_def)
next
  case False
  have "b div 16 < 16" using assms by simp
  with False show ?thesis
    by (subst hexstr.simps) (simp add: hexstr.simps [of "b div 16"])
qed

lemma length_hexstr_byte: "b < 256 \<Longrightarrow> length (hexstr b) = (if b < 16 then 1 else 2)"
  using hexstr_two_digits [of b] by (auto split: if_splits dest: arg_cong [where f = length])

lemma byte2hex_byte:
  assumes "b < 256"
  shows "byte2hex (Num (of_nat b)) = [hexdigit (b div 16), hexdigit (b mod 16)]"
  using hexstr_two_digits [OF assms] length_hexstr_byte [OF assms]
  by (auto simp: byte2hex_def absstr_def Let_def split: if_splits)

lemma parseInt_two_digits:
  assumes "a < 16" "b < 16"
  shows "parseInt [hexdigit a, hexdigit b] = Num (of_nat (16 * a + b))"
proof -
  have "\<forall>c \<in> set [hexdigit a, hexdigit b]. lowerhex c"
    using assms by (simp add: lowerhex_hexdigit)
  then have "parseInt [hexdigit a, hexdigit b] = Num (of_nat (digitsValue [hexdigit a, hexdigit b]))"
    by (intro parseInt_lowerhex) simp_all
  then show ?thesis using assms by (simp add: digitsValue_def digit16_hexdigit)
qed

lemma unat_byte_less: "unat (b :: byte) < 256"
  using unsigned_less [of b, where ?'a = nat] by simp

lemma hexstring2ab_ab2hexstring: "hexstring2ab (ab2hexstring (numbers bs)) = numbers bs"
proof (induction bs)
  case Nil
  then show ?case by (simp add: ab2hexstring_def numbers_def)
next
  case (Cons b bs)
  let ?n = "unat b"
  have n: "?n < 256" by (rule unat_byte_less)
  then have d: "?n div 16 < 16" "?n mod 16 < 16" by simp_all
  have "parseInt [hexdigit (?n div 16), hexdigit (?n mod 16)] = Num (of_nat ?n)"
    using parseInt_two_digits [OF d] by simp
  with Cons show ?case
    by (simp add: ab2hexstring_def numbers_def byte2hex_byte [OF n] del: of_nat_unat)
qed

lemma truncQ_of_nat: "truncQ (of_nat n) = int n"
  by (simp add: truncQ_def)

lemma toUint8_of_nat: "toUint8 (Num (of_nat n)) = of_nat n"
  by (simp only: toUint8.simps truncQ_of_nat of_int_of_nat_eq)

lemma toUint8_of_byte: "toUint8 (Num (of_nat (unat (b :: byte)))) = b"
  by (simp only: toUint8_of_nat) simp

lemma toUint8_numbers: "map toUint8 (numbers bs) = bs"
proof -
  have "toUint8 \<circ> (\<lambda>b. Num (of_nat (unat b))) = id"
    by (rule ext) (simp only: o_apply toUint8_of_byte id_apply)
  then show ?thesis by (simp only: numbers_def map_map list.map_id)
qed

lemma ab2hexstring_numbers_inject:
  "ab2hexstring (numbers xs) = ab2hexstring (numbers ys) \<longleftrightarrow> xs = ys"
proof
  assume "ab2hexstring (numbers xs) = ab2hexstring (numbers ys)"
  then have "hexstring2ab (ab2hexstring (numbers xs)) = hexstring2ab (ab2hexstring (numbers ys))"
    by simp
  then have "numbers xs = numbers ys" by (simp add: hexstring2ab_ab2hexstring)
  then show "xs = ys" by (metis toUint8_numbers)
qed simp


lemma hexstring2ab_lowerhex:
  assumes "\<forall>c \<in> set s. lowerhex c"
  shows "hexstring2ab s = numbers (map toUint8 (hexstring2ab s)) \<and> map byte2hex (hexstring2ab s) = pairs s"
  using assms
proof (induction s rule: hexstring2ab.induct)
  case (1 a b s)
  obtain x where x: "x < 16" "a = hexdigit x" using 1(2) lowerhex_digit16 [of a] by auto
  obtain y where y: "y < 16" "b = hexdigit y" using 1(2) lowerhex_digit16 [of b] by auto
  let ?n = "16 * x + y"
  have n: "?n < 256" using x y by simp
  have p: "parseInt [a, b] = Num (of_nat ?n)"
    using parseInt_two_digits [OF x(1) y(1)] x y by simp
  have u: "unat (of_nat ?n :: byte) = ?n"
    using n unat_of_nat [of ?n, where ?'a = 8] by simp
  have t: "toUint8 (Num (of_nat ?n)) = (of_nat ?n :: byte)"
    by (rule toUint8_of_nat)
  have h: "byte2hex (Num (of_nat ?n)) = [a, b]"
    using byte2hex_byte [OF n] x y by simp
  from 1 have IH: "hexstring2ab s = numbers (map toUint8 (hexstring2ab s))"
    "map byte2hex (hexstring2ab s) = pairs s" by simp_all
  have "numbers (map toUint8 (hexstring2ab (a # b # s)))
      = Num (of_nat (unat (toUint8 (parseInt [a, b])))) # numbers (map toUint8 (hexstring2ab s))"
    by (simp add: numbers_def)
  also have "\<dots> = parseInt [a, b] # hexstring2ab s"
    using IH(1) by (simp only: p t u)
  finally show ?case using IH(2) h p by simp
qed (simp_all add: numbers_def)

lemma ab2hexstring_hexstring2ab:
  assumes "\<forall>c \<in> set s. lowerhex c" "even (length s)"
  shows "ab2hexstring (hexstring2ab s) = s"
  using hexstring2ab_lowerhex [OF assms(1)] assms(2)
  by (simp add: ab2hexstring_def concat_pairs)

lemma length_hexstring2ab: "length (hexstring2ab s) = length s div 2"
  by (induction s rule: hexstring2ab.induct) simp_all

section \<open>Addresses and WIF keys\<close>

lemma numbers_take: "take n (numbers bs) = numbers (take n bs)"
  by (simp add: numbers_def take_map)

lemma hexstring2ab_digest:
  assumes "prints_hex P h n"
  shows "hexstring2ab (toString P (h w)) = numbers (wordBytes P (h w))"
    and "length (wordBytes P (h w)) = n"
    and "ab2hexstring (numbers (wordBytes P (h w))) = toString P (h w)"
proof -
  from assms have l: "length (toString P (h w)) = 2 * n"
    and c: "\<forall>c \<in> set (toString P (h w)). lowerhex c"
    by (simp_all add: prints_hex_def)
  show 1: "hexstring2ab (toString P (h w)) = numbers (wordBytes P (h w))"
    unfolding wordBytes_def using hexstring2ab_lowerhex [OF c] by simp
  show "length (wordBytes P (h w)) = n"
    by (simp add: wordBytes_def length_hexstring2ab l)
  show "ab2hexstring (numbers (wordBytes P (h w))) = toString P (h w)"
    unfolding 1 [symmetric] using ab2hexstring_hexstring2ab [OF c] l by simp
qed

lemma toAddress_bytes:
  assumes "prints_hex P (SHA256 P) 32" "length h = 20"
  shows "toAddress P (numbers h)
    = Inr (base58_encode P (23 # h @ take 4 (wordBytes P (SHA256 P (SHA256 P (ofBytes P (23 # h)))))))"
proof -
  let ?w = "SHA256 P (SHA256 P (ofBytes P (23 # h)))"
  have l: "length (numbers h) = 20" using assms(2) by (simp add: numbers_def)
  have b: "hexstring2ab (toString P ?w) = numbers (wordBytes P ?w)"
    using hexstring2ab_digest(1) [OF assms(1)] .
  have lw: "length (wordBytes P ?w) = 32"
    using hexstring2ab_digest(2) [OF assms(1)] .
  have "take 4 (map toUint8 (take 4 (numbers (wordBytes P ?w))) @ replicate 4 0)
      = take 4 (wordBytes P ?w)"
    using lw by (simp add: numbers_take toUint8_numbers)
  then show ?thesis
    unfolding toAddress_def Let_def
    by (simp only: l toUint8_numbers ofBytes_def [symmetric] b) simp
qed

text \<open>Claim C10. \<open>toAddress\<close> throws exactly when its argument does not have 20 entries.
  On 20 bytes \<open>h\<close> it returns the base58 text of the 25 bytes \<open>23 \<parallel> h \<parallel> c\<close>, where \<open>c\<close> are
  the first four bytes of \<open>SHA256(SHA256(23 \<parallel> h))\<close>; the result is never the empty text when
  the base58 coder maps a non-empty buffer to a non-empty text.\<close>

theorem toAddress_base58check:
  assumes "prints_hex P (SHA256 P) 32"
  shows "((\<exists>e. toAddress P H = Inl e) \<longleftrightarrow> length H \<noteq> 20) \<and>
    (length h = 20 \<longrightarrow>
       toAddress P (numbers h)
         = Inr (base58_encode P
             (23 # h @ take 4 (wordBytes P (SHA256 P (SHA256 P (ofBytes P (23 # h))))))) \<and>
       length (23 # h @ take 4 (wordBytes P (SHA256 P (SHA256 P (ofBytes P (23 # h)))))) = 25) \<and>
    ((\<forall>bs. bs \<noteq> [] \<longrightarrow> base58_encode P bs \<noteq> []) \<longrightarrow> toAddress P H \<noteq> Inr [])"
proof (intro conjI impI)
  show "(\<exists>e. toAddress P H = Inl e) \<longleftrightarrow> length H \<noteq> 20"
    by (simp add: toAddress_def Let_def)
  show "toAddress P (numbers h)
      = Inr (base58_encode P (23 # h @ take 4 (wordBytes P (SHA256 P (SHA256 P (ofBytes P (23 # h)))))))"
    if "length h = 20"
    using toAddress_bytes [OF assms that] .
  show "length (23 # h @ take 4 (wordBytes P (SHA256 P (SHA256 P (ofBytes P (23 # h)))))) = 25"
    if "length h = 20"
    using that hexstring2ab_digest(2) [OF assms] by simp
  show "toAddress P H \<noteq> Inr []" if "\<forall>bs. bs \<noteq> [] \<longrightarrow> base58_encode P bs \<noteq> []"
    using that by (simp add: toAddress_def Let_def)
qed

lemma take1_nth: "0 < length xs \<Longrightarrow> take (Suc 0) xs = [xs ! 0]"
  by (cases xs) simp_all

lemma take1_drop_nth: "n < length xs \<Longrightarrow> take (Suc 0) (drop n xs) = [xs ! n]"
  by (simp add: Cons_nth_drop_Suc [symmetric])

text \<open>Claim C7. When base58 decoding fails, \<open>getPrivateKeyFromWIF\<close> fails with it. On decoded
  bytes \<open>data\<close> it returns the key, the hexadecimal text of the bytes 1 to 32, exactly when
  \<open>data\<close> has 38 bytes, starts with \<open>0x80\<close>, has \<open>0x01\<close> at index 33 and ends with the first
  four bytes of \<open>SHA256(SHA256(data[0..34]))\<close>; otherwise it returns the number \<open>-1\<close> or
  \<open>-2\<close>, which is not a key.\<close>

theorem getPrivateKeyFromWIF_checks:
  assumes "prints_hex P (SHA256 P) 32"
  shows "(\<forall>e. base58_decode P wif = Inl e \<longrightarrow> getPrivateKeyFromWIF P wif = Inl e) \<and>
    (\<forall>data. base58_decode P wif = Inr data \<longrightarrow>
       getPrivateKeyFromWIF P wif =
         (if length data = 38 \<and> data ! 0 = 0x80 \<and> data ! 33 = 0x01 \<and>
             drop 34 data = take 4 (wordBytes P (SHA256 P (SHA256 P (ofBytes P (take 34 data)))))
          then Inr (Value (ab2hexstring (numbers (take 32 (drop 1 data)))))
          else if length data = 38 \<and> data ! 0 = 0x80 \<and> data ! 33 = 0x01
          then Inr (Number (- 2))
          else Inr (Number (- 1))))"
proof (intro conjI allI impI)
  fix e assume "base58_decode P wif = Inl e"
  then show "getPrivateKeyFromWIF P wif = Inl e" by (simp add: getPrivateKeyFromWIF_def)
next
  fix data assume d: "base58_decode P wif = Inr data"
  let ?w = "SHA256 P (SHA256 P (ofBytes P (take 34 data)))"
  let ?basic = "length data = 38 \<and> data ! 0 = 0x80 \<and> data ! 33 = 0x01"
  show "getPrivateKeyFromWIF P wif =
         (if length data = 38 \<and> data ! 0 = 0x80 \<and> data ! 33 = 0x01 \<and>
             drop 34 data = take 4 (wordBytes P ?w)
          then Inr (Value (ab2hexstring (numbers (take 32 (drop 1 data)))))
          else if ?basic then Inr (Number (- 2))
          else Inr (Number (- 1)))"
  proof (cases ?basic)
    case False
    then have A: "length data \<noteq> 38 \<or> take 1 data \<noteq> [0x80] \<or> take 1 (drop 33 data) \<noteq> [0x01]"
      by (cases "length data = 38") (simp_all add: take1_nth take1_drop_nth)
    have "getPrivateKeyFromWIF P wif = Inr (Number (- 1))"
      unfolding getPrivateKeyFromWIF_def d bindE.simps
      by (simp only: A if_True)
    with False show ?thesis by auto
  next
    case True
    then have basic: "\<not> (length data \<noteq> 38 \<or> take 1 data \<noteq> [0x80] \<or> take 1 (drop 33 data) \<noteq> [0x01])"
      by (simp add: take1_nth take1_drop_nth)
    have len: "length data - 4 = 34" using True by simp
    have b: "hexstring2ab (toString P ?w) = numbers (wordBytes P ?w)"
      using hexstring2ab_digest(1) [OF assms] .
    have cmp: "ab2hexstring (take 4 (hexstring2ab (toString P ?w)))
        \<noteq> ab2hexstring (numbers (drop 34 data))
        \<longleftrightarrow> drop 34 data \<noteq> take 4 (wordBytes P ?w)"
      unfolding b numbers_take ab2hexstring_numbers_inject by auto
    have "getPrivateKeyFromWIF P wif =
        (if drop 34 data \<noteq> take 4 (wordBytes P ?w) then Inr (Number (- 2))
         else Inr (Value (ab2hexstring (numbers (take 32 (drop 1 data))))))"
      unfolding getPrivateKeyFromWIF_def d bindE.simps Let_def len
      by (simp only: basic if_False ofBytes_def [symmetric] cmp)
    with True show ?thesis by simp
  qed
qed

section \<open>Accounts and the transaction hash\<close>

lemma getAccountFromPublicKey_Value:
  assumes "getAccountFromPublicKey P pub priv = Inr (Value a)"
  shows "verifyPublicKeyEncoded P pub = Inr True"
    and "\<exists>addr. toAddress P (hexstring2ab (getHash P (createChainLineWalletScript (Some pub)))) = Inr addr \<and>
      a = \<lparr>privateKey = priv, publicKeyEncoded = pub, publicKeyHash = getHash P pub,
           programHash = getHash P (createChainLineWalletScript (Some pub)), address = addr\<rparr>"
proof -
  obtain ok where ok: "verifyPublicKeyEncoded P pub = Inr ok"
    using assms by (cases "verifyPublicKeyEncoded P pub") (simp_all add: getAccountFromPublicKey_def)
  with assms have t: "ok" by (cases ok) (simp_all add: getAccountFromPublicKey_def)
  with ok show "verifyPublicKeyEncoded P pub = Inr True" by simp
  let ?ph = "getHash P (createChainLineWalletScript (Some pub))"
  obtain addr where addr: "toAddress P (hexstring2ab ?ph) = Inr addr"
    using assms ok t by (cases "toAddress P (hexstring2ab ?ph)") (simp_all add: getAccountFromPublicKey_def Let_def)
  with assms ok t show "\<exists>addr. toAddress P (hexstring2ab ?ph) = Inr addr \<and>
      a = \<lparr>privateKey = priv, publicKeyEncoded = pub, publicKeyHash = getHash P pub,
           programHash = ?ph, address = addr\<rparr>"
    by (auto simp: getAccountFromPublicKey_def Let_def)
qed

lemma addressToScriptHash_toAddress:
  assumes sha: "prints_hex P (SHA256 P) 32"
    and b58: "\<forall>bs. base58_decode P (base58_encode P bs) = Inr bs"
    and h: "length h = 20" and addr: "toAddress P (numbers h) = Inr addr"
  shows "addressToScriptHash P addr = Inr (ab2hexstring (numbers h))"
proof -
  let ?datas = "23 # h @ take 4 (wordBytes P (SHA256 P (SHA256 P (ofBytes P (23 # h)))))"
  have "addr = base58_encode P ?datas"
    using toAddress_bytes [OF sha h] addr by simp
  then have "base58_decode P addr = Inr ?datas" using b58 by simp
  then show ?thesis using h by (simp add: addressToScriptHash_def)
qed

text \<open>Claim C6. For an account that \<open>getAccountFromPublicKey\<close> returns, \<open>programHash\<close> is
  the RIPEMD160 of the SHA256 of the wallet script of the public key, it has 20 bytes, and
  \<open>addressToScriptHash\<close> of the account's address gives \<open>programHash\<close> back.\<close>

theorem account_programHash_and_address:
  assumes "prints_hex P (SHA256 P) 32" "prints_hex P (RIPEMD160 P) 20"
    and "\<forall>bs. base58_decode P (base58_encode P bs) = Inr bs"
    and "getAccountFromPublicKey P pub priv = Inr (Value a)"
  shows "programHash a
      = toString P (RIPEMD160 P (SHA256 P (Hex_parse P (createChainLineWalletScript (Some pub))))) \<and>
    length (hexstring2ab (programHash a)) = 20 \<and>
    addressToScriptHash P (address a) = Inr (programHash a)"
proof -
  let ?w = "RIPEMD160 P (SHA256 P (Hex_parse P (createChainLineWalletScript (Some pub))))"
  have gh: "getHash P (createChainLineWalletScript (Some pub)) = toString P ?w"
    by (simp add: getHash_def)
  from getAccountFromPublicKey_Value(2) [OF assms(4)] obtain addr
    where addr: "toAddress P (hexstring2ab (toString P ?w)) = Inr addr"
      and a: "programHash a = toString P ?w" "address a = addr"
    unfolding gh by auto
  have b: "hexstring2ab (toString P ?w) = numbers (wordBytes P ?w)"
    and l: "length (wordBytes P ?w) = 20"
    and s: "ab2hexstring (numbers (wordBytes P ?w)) = toString P ?w"
    using hexstring2ab_digest [OF assms(2)] by simp_all
  have "addressToScriptHash P addr = Inr (ab2hexstring (numbers (wordBytes P ?w)))"
    using addressToScriptHash_toAddress [OF assms(1) assms(3) l] addr b by simp
  with a b l s show ?thesis by (simp add: numbers_def)
qed

lemma map_byte2hex_numbers_rev:
  "concat (rev (map byte2hex (numbers bs))) = ab2hexstring (numbers (rev bs))"
  by (simp add: ab2hexstring_def numbers_def rev_map)

text \<open>Claim C4. \<open>getTransactionHash\<close> is the hexadecimal text of the bytes, in reverse order,
  of \<open>SHA256(SHA256(serializeTransaction(tx, false)))\<close>; it fails when the serialization
  fails.\<close>

theorem getTransactionHash_reversed_double_SHA256:
  assumes "prints_hex P (SHA256 P) 32"
  shows "getTransactionHash sz P tx =
    bindE (serializeTransaction sz tx False) (\<lambda>data.
      Inr (ab2hexstring (numbers (rev (wordBytes P (SHA256 P (SHA256 P (Hex_parse P data))))))))"
proof (cases "serializeTransaction sz tx False")
  case (Inl e)
  then show ?thesis by (simp add: getTransactionHash_def)
next
  case (Inr data)
  let ?w = "SHA256 P (SHA256 P (Hex_parse P data))"
  from assms have l: "length (toString P ?w) = 2 * 32"
    and c: "\<forall>c \<in> set (toString P ?w). lowerhex c"
    by (simp_all add: prints_hex_def)
  have "reverseHex (toString P ?w) = Inr (concat (rev (pairs (toString P ?w))))"
    using l by (intro reverseHex_even) simp
  also have "pairs (toString P ?w) = map byte2hex (numbers (wordBytes P ?w))"
    using hexstring2ab_lowerhex [OF c] hexstring2ab_digest(1) [OF assms, of "SHA256 P (Hex_parse P data)"]
    by simp
  finally have "reverseHex (toString P ?w) = Inr (ab2hexstring (numbers (rev (wordBytes P ?w))))"
    by (simp only: map_byte2hex_numbers_rev)
  with Inr show ?thesis by (simp add: getTransactionHash_def)
qed

section \<open>Signing\<close>

lemma bigEndian_Suc: "bigEndian (Suc k) n = bigEndian k (n div 256) @ [of_nat n]"
proof -
  have "(of_nat (n div 256 ^ (Suc k - 1 - i)) :: byte) = of_nat (n div 256 div 256 ^ (k - 1 - i))"
    if "i < k" for i
  proof -
    have "Suc k - 1 - i = Suc (k - 1 - i)" using that by simp
    then show ?thesis by (simp add: div_mult2_eq)
  qed
  then show ?thesis by (simp add: bigEndian_def)
qed

lemma ab2hexstring_snoc:
  "ab2hexstring (numbers (bs @ [b])) = ab2hexstring (numbers bs) @ byte2hex (Num (of_nat (unat b)))"
  by (simp add: ab2hexstring_def numbers_def del: of_nat_unat)

lemma hex_bigEndian:
  "length (ab2hexstring (numbers (bigEndian k n))) = 2 * k \<and>
   (\<forall>c \<in> set (ab2hexstring (numbers (bigEndian k n))). lowerhex c) \<and>
   digitsValue (ab2hexstring (numbers (bigEndian k n))) = n mod 256 ^ k"
proof (induction k arbitrary: n)
  case 0
  show ?case by (simp add: bigEndian_def ab2hexstring_def numbers_def digitsValue_def)
next
  case (Suc k)
  let ?X = "ab2hexstring (numbers (bigEndian k (n div 256)))"
  let ?u = "unat (of_nat n :: byte)"
  have u: "?u = n mod 256" using unat_of_nat [of n, where ?'a = 8] by simp
  then have u256: "?u < 256" by simp
  then have d: "?u div 16 < 16" "?u mod 16 < 16" by simp_all
  have e: "ab2hexstring (numbers (bigEndian (Suc k) n))
      = ?X @ [hexdigit (?u div 16), hexdigit (?u mod 16)]"
    by (simp only: bigEndian_Suc ab2hexstring_snoc byte2hex_byte [OF u256])
  have dv: "digitsValue (?X @ [hexdigit (?u div 16), hexdigit (?u mod 16)])
      = 256 * digitsValue ?X + ?u"
    using digitsValue_snoc [of "?X @ [hexdigit (?u div 16)]" "hexdigit (?u mod 16)"]
      digitsValue_snoc [of ?X "hexdigit (?u div 16)"] d
    by (simp add: digit16_hexdigit)
  have "256 * ((n div 256) mod 256 ^ k) + n mod 256 = n mod 256 ^ Suc k"
    by (simp add: mod_mult2_eq)
  with Suc [of "n div 256"] dv u d show ?case
    unfolding e by (simp add: lowerhex_hexdigit)
qed

lemma toArrayLike_be32_hex:
  assumes "n < 2 ^ 256"
  shows "toArrayLike_be32 n = Inr (bigEndian 32 n)"
    and "length (ab2hexstring (numbers (bigEndian 32 n))) = 64"
    and "parseInt (ab2hexstring (numbers (bigEndian 32 n))) = Num (of_nat n)"
proof -
  show "toArrayLike_be32 n = Inr (bigEndian 32 n)"
    using assms by (simp add: toArrayLike_be32_def bigEndian_def)
  let ?R = "ab2hexstring (numbers (bigEndian 32 n))"
  from hex_bigEndian [of 32 n] have l: "length ?R = 64" and c: "\<forall>c \<in> set ?R. lowerhex c"
    and v: "digitsValue ?R = n mod 256 ^ 32" by simp_all
  show "length ?R = 64" by (rule l)
  have "(256::nat) ^ 32 = 2 ^ 256" by simp
  with assms v have "digitsValue ?R = n" by simp
  moreover have "?R \<noteq> []" using l by auto
  ultimately show "parseInt ?R = Num (of_nat n)" using parseInt_lowerhex [OF _ c] by simp
qed

lemma ab2hexstring_append:
  "ab2hexstring (numbers (xs @ ys)) = ab2hexstring (numbers xs) @ ab2hexstring (numbers ys)"
  by (simp add: ab2hexstring_def numbers_def)

lemma getAccountFromPrivateKey_Value:
  assumes "getAccountFromPrivateKey P k = Inr (Value a)"
  shows "length k = 64"
    and "getAccountFromPublicKey P (ab2hexstring (numbers (getPublicKey P k True))) (Some k) = Inr (Value a)"
  using assms by (simp_all add: getAccountFromPrivateKey_def Let_def split: if_splits)

text \<open>Claim C3. With \<open>(r, s)\<close> the signature, under the key \<open>k\<close>, of the SHA256 digest of the
  unsigned serialization, \<open>signTransaction\<close> appends one witness after those already there:
  its invocation script is \<open>40\<close> followed by \<open>r\<close> and by \<open>s\<close>, each as the text of its
  32 bytes, most significant first (64 hexadecimal digits that denote the number), and its
  verification script is the wallet script of the public key of \<open>k\<close>.\<close>

theorem signTransaction_appends_witness:
  assumes "serializeTransaction sz tx False = Inr data"
    and "elliptic_sign P (toString P (SHA256 P (Hex_parse P data))) k = (r, s)"
    and "r < 2 ^ 256" "s < 2 ^ 256"
    and "getAccountFromPrivateKey P k = Inr (Value a)"
  shows "signTransaction sz P tx k
      = Inr (tx\<lparr>scripts := Some ((case scripts tx of None \<Rightarrow> [] | Some ws \<Rightarrow> ws) @
          [\<lparr>invocationScript = ''40'' @ ab2hexstring (numbers (bigEndian 32 r)) @
              ab2hexstring (numbers (bigEndian 32 s)),
            verificationScript = createChainLineWalletScript
              (Some (ab2hexstring (numbers (getPublicKey P k True))))\<rparr>])\<rparr>) \<and>
    length (ab2hexstring (numbers (bigEndian 32 r))) = 64 \<and>
    parseInt (ab2hexstring (numbers (bigEndian 32 r))) = Num (of_nat r) \<and>
    length (ab2hexstring (numbers (bigEndian 32 s))) = 64 \<and>
    parseInt (ab2hexstring (numbers (bigEndian 32 s))) = Num (of_nat s)"
proof -
  note rb = toArrayLike_be32_hex [OF assms(3)]
  note sb = toArrayLike_be32_hex [OF assms(4)]
  have sig: "signatureData P data k
      = Inr (ab2hexstring (numbers (bigEndian 32 r)) @ ab2hexstring (numbers (bigEndian 32 s)))"
    using assms(2) rb(1) sb(1) by (simp add: signatureData_def Let_def ab2hexstring_append)
  have pub: "publicKeyEncoded a = ab2hexstring (numbers (getPublicKey P k True))"
    using getAccountFromPublicKey_Value(2) [OF getAccountFromPrivateKey_Value(2) [OF assms(5)]]
    by auto
  have "signTransaction sz P tx k
      = Inr (tx\<lparr>scripts := Some ((case scripts tx of None \<Rightarrow> [] | Some ws \<Rightarrow> ws) @
          [\<lparr>invocationScript = ''40'' @ ab2hexstring (numbers (bigEndian 32 r)) @
              ab2hexstring (numbers (bigEndian 32 s)),
            verificationScript = createChainLineWalletScript
              (Some (ab2hexstring (numbers (getPublicKey P k True))))\<rparr>])\<rparr>)"
    unfolding signTransaction_def assms(1) assms(5) sig bindE.simps Let_def
    by (cases "scripts tx") (simp_all add: pub)
  with rb(2,3) sb(2,3) show ?thesis by blast
qed

text \<open>\<open>signTransaction\<close> does not check the key: for a key from which no account is derived
  (\<open>getAccountFromPrivateKey\<close> returns \<open>-1\<close>) it still appends a witness, whose verification
  script holds the text \<open>undefined\<close> in place of the public key.\<close>

lemma signTransaction_key_without_account:
  assumes "serializeTransaction sz tx False = Inr data"
    and "signatureData P data k = Inr sig"
    and "getAccountFromPrivateKey P k = Inr (Number n)"
  shows "signTransaction sz P tx k
      = Inr (tx\<lparr>scripts := Some ((case scripts tx of None \<Rightarrow> [] | Some ws \<Rightarrow> ws) @
          [\<lparr>invocationScript = ''40'' @ sig,
            verificationScript = createChainLineWalletScript None\<rparr>])\<rparr>)"
  unfolding signTransaction_def assms bindE.simps Let_def
  by (cases "scripts tx") simp_all

section \<open>The statements on an instance of the parameters\<close>

lemma toy_prints_hex:
  "prints_hex toy_crypto (SHA256 toy_crypto) 32" "prints_hex toy_crypto (RIPEMD160 toy_crypto) 20"
  by (simp_all add: prints_hex_def toy_crypto_def lowerhex_def)

lemma even_length_ab2hexstring: "even (length (ab2hexstring (numbers bs)))"
proof (induction bs rule: rev_induct)
  case Nil
  then show ?case by (simp add: ab2hexstring_def numbers_def)
next
  case (snoc b bs)
  then show ?case
    by (simp only: ab2hexstring_snoc byte2hex_byte [OF unat_byte_less]) simp
qed

lemma toy_base58: "\<forall>bs. base58_decode toy_crypto (base58_encode toy_crypto bs) = Inr bs"
  by (simp add: toy_crypto_def hexstring2ab_ab2hexstring toUint8_numbers even_length_ab2hexstring)

lemma toy_base58_nonempty: "\<forall>bs. bs \<noteq> [] \<longrightarrow> base58_encode toy_crypto bs \<noteq> []"
proof (intro allI impI)
  fix bs :: "byte list" assume "bs \<noteq> []"
  then have "numbers bs \<noteq> []" by (simp add: numbers_def)
  then have "hexstring2ab (ab2hexstring (numbers bs)) \<noteq> []"
    by (simp add: hexstring2ab_ab2hexstring)
  then show "base58_encode toy_crypto bs \<noteq> []" by (auto simp: toy_crypto_def)
qed

lemma toy_wordBytes_SHA256:
  "take 4 (wordBytes toy_crypto (SHA256 toy_crypto w)) = [0, 1, 2, 3]"
  by (simp add: wordBytes_def toy_crypto_def parseInt_def stripSign_def stripPrefix_def
      isWhiteSpace_def digit16_def digitsValue_def truncQ_def)

theorem toAddress_base58check_witness:
  "prints_hex toy_crypto (SHA256 toy_crypto) 32 \<and>
   (\<exists>e. toAddress toy_crypto [Num 1] = Inl e) \<and> length [Num 1] \<noteq> 20 \<and>
   length (replicate 20 (1 :: byte)) = 20 \<and>
   toAddress toy_crypto (numbers (replicate 20 1))
     = Inr (base58_encode toy_crypto (23 # replicate 20 1 @ [0, 1, 2, 3])) \<and>
   toAddress toy_crypto (numbers (replicate 20 1)) \<noteq> Inr []"
proof -
  note a = toAddress_base58check [OF toy_prints_hex(1), of "[Num 1]" "replicate 20 1"]
  note b = toAddress_base58check [OF toy_prints_hex(1), of "numbers (replicate 20 1)" "replicate 20 1"]
  have l: "length (replicate 20 (1 :: byte)) = 20" by simp
  from a have 1: "\<exists>e. toAddress toy_crypto [Num 1] = Inl e" by simp
  from b l have 2: "toAddress toy_crypto (numbers (replicate 20 1))
     = Inr (base58_encode toy_crypto (23 # replicate 20 1 @ [0, 1, 2, 3]))"
    by (simp add: toy_wordBytes_SHA256)
  from b toy_base58_nonempty have 3: "toAddress toy_crypto (numbers (replicate 20 1)) \<noteq> Inr []"
    by blast
  from 1 2 3 toy_prints_hex(1) show ?thesis by simp
qed

lemma getAccountFromPublicKey_succeeds:
  assumes "prints_hex P (SHA256 P) 32" "prints_hex P (RIPEMD160 P) 20"
    and "verifyPublicKeyEncoded P pub = Inr True"
  shows "\<exists>a. getAccountFromPublicKey P pub priv = Inr (Value a)"
proof -
  let ?w = "RIPEMD160 P (SHA256 P (Hex_parse P (createChainLineWalletScript (Some pub))))"
  have b: "hexstring2ab (toString P ?w) = numbers (wordBytes P ?w)"
    and l: "length (wordBytes P ?w) = 20"
    using hexstring2ab_digest [OF assms(2)] by simp_all
  from toAddress_bytes [OF assms(1) l] obtain addr
    where "toAddress P (hexstring2ab (toString P ?w)) = Inr addr"
    unfolding b by blast
  then show ?thesis
    by (simp add: getAccountFromPublicKey_def assms(3) Let_def getHash_def)
qed

theorem getPrivateKeyFromWIF_checks_witness:
  "prints_hex toy_crypto (SHA256 toy_crypto) 32 \<and>
   base58_decode toy_crypto ''0'' = Inl (Error ''Non-base58 character'') \<and>
   getPrivateKeyFromWIF toy_crypto ''0'' = Inl (Error ''Non-base58 character'') \<and>
   base58_decode toy_crypto
     ''8011111111111111111111111111111111111111111111111111111111111111110100010203''
     = Inr (0x80 # replicate 32 0x11 @ [1, 0, 1, 2, 3]) \<and>
   getPrivateKeyFromWIF toy_crypto
     ''8011111111111111111111111111111111111111111111111111111111111111110100010203''
     = Inr (Value ''1111111111111111111111111111111111111111111111111111111111111111'')"
proof -
  let ?wif = "''8011111111111111111111111111111111111111111111111111111111111111110100010203''"
  let ?data = "0x80 # replicate 32 0x11 @ [1, 0, 1, 2, 3] :: byte list"
  have e: "base58_decode toy_crypto ''0'' = Inl (Error ''Non-base58 character'')"
    by (simp add: toy_crypto_def)
  have d: "base58_decode toy_crypto ?wif = Inr ?data"
    by (simp add: toy_crypto_def parseInt_def stripSign_def stripPrefix_def
      isWhiteSpace_def digit16_def digitsValue_def truncQ_def replicate_numeral)
  have k: "ab2hexstring (numbers (take 32 (drop 1 ?data)))
      = ''1111111111111111111111111111111111111111111111111111111111111111''"
    by (simp add: replicate_numeral ab2hexstring_def numbers_def byte2hex_def absstr_def
        hexstr.simps hexdigit_def)
  note t = getPrivateKeyFromWIF_checks [OF toy_prints_hex(1)]
  from t [of "''0''"] e have 1: "getPrivateKeyFromWIF toy_crypto ''0'' = Inl (Error ''Non-base58 character'')"
    by blast
  from t [of ?wif] d have "getPrivateKeyFromWIF toy_crypto ?wif =
         (if length ?data = 38 \<and> ?data ! 0 = 0x80 \<and> ?data ! 33 = 0x01 \<and>
             drop 34 ?data = take 4 (wordBytes toy_crypto (SHA256 toy_crypto (SHA256 toy_crypto (ofBytes toy_crypto (take 34 ?data)))))
          then Inr (Value (ab2hexstring (numbers (take 32 (drop 1 ?data)))))
          else if length ?data = 38 \<and> ?data ! 0 = 0x80 \<and> ?data ! 33 = 0x01
          then Inr (Number (- 2))
          else Inr (Number (- 1)))"
    by blast
  then have 2: "getPrivateKeyFromWIF toy_crypto ?wif
      = Inr (Value ''1111111111111111111111111111111111111111111111111111111111111111'')"
    unfolding toy_wordBytes_SHA256 k by (simp add: replicate_numeral)
  from toy_prints_hex(1) e 1 d 2 show ?thesis by simp
qed

lemma toy_verifyPublicKeyEncoded:
  "verifyPublicKeyEncoded toy_crypto (ab2hexstring (numbers (2 # bs))) = Inr True"
proof -
  have "hexstring2ab (ab2hexstring (numbers (2 # bs))) = Num 2 # numbers bs"
    unfolding hexstring2ab_ab2hexstring by (simp add: numbers_def)
  then show ?thesis
    by (simp add: verifyPublicKeyEncoded_def toy_crypto_def)
qed

lemma toy_getPublicKey: "getPublicKey toy_crypto k True = 2 # replicate 32 1"
  by (simp add: getPublicKey_def toy_crypto_def)

theorem account_programHash_and_address_witness:
  "prints_hex toy_crypto (SHA256 toy_crypto) 32 \<and> prints_hex toy_crypto (RIPEMD160 toy_crypto) 20 \<and>
   (\<forall>bs. base58_decode toy_crypto (base58_encode toy_crypto bs) = Inr bs) \<and>
   (\<exists>a. getAccountFromPublicKey toy_crypto (ab2hexstring (numbers (2 # replicate 32 1))) None
          = Inr (Value a) \<and>
        programHash a = ''a0a1a2a3a4a5a6a7a8a9aaabacadaeafb0b1b2b3'' \<and>
        length (hexstring2ab (programHash a)) = 20 \<and>
        addressToScriptHash toy_crypto (address a) = Inr (programHash a))"
proof -
  let ?pub = "ab2hexstring (numbers (2 # replicate 32 1))"
  obtain a where a: "getAccountFromPublicKey toy_crypto ?pub None = Inr (Value a)"
    using getAccountFromPublicKey_succeeds [OF toy_prints_hex toy_verifyPublicKeyEncoded] by blast
  from account_programHash_and_address [OF toy_prints_hex toy_base58 a]
  have "programHash a = ''a0a1a2a3a4a5a6a7a8a9aaabacadaeafb0b1b2b3'' \<and>
      length (hexstring2ab (programHash a)) = 20 \<and>
      addressToScriptHash toy_crypto (address a) = Inr (programHash a)"
    by (simp add: toy_crypto_def)
  with a toy_prints_hex toy_base58 show ?thesis by blast
qed

lemma toy_serializeTransaction:
  "serializeTransaction toy_serialize
      \<lparr>type = Num 128, version = Num 0, attributes = [], inputs = [''aa''], outputs = [''bb'', ''cc''],
       scripts = Some [], exclusiveData = ()\<rparr> False = Inr ''80000001aa02bbcc''"
  by (simp add: serializeTransaction_def toy_serialize_def utils_eval)

theorem getTransactionHash_reversed_double_SHA256_witness:
  "prints_hex toy_crypto (SHA256 toy_crypto) 32 \<and>
   getTransactionHash toy_serialize toy_crypto
      \<lparr>type = Num 128, version = Num 0, attributes = [], inputs = [''aa''], outputs = [''bb'', ''cc''],
       scripts = Some [], exclusiveData = ()\<rparr>
     = Inr ''1f1e1d1c1b1a191817161514131211100f0e0d0c0b0a09080706050403020100''"
proof -
  let ?tx = "\<lparr>type = Num 128, version = Num 0, attributes = [], inputs = [''aa''],
       outputs = [''bb'', ''cc''], scripts = Some [], exclusiveData = ()\<rparr> :: (string, unit) Transaction"
  have w: "wordBytes toy_crypto (SHA256 toy_crypto (SHA256 toy_crypto (Hex_parse toy_crypto ''80000001aa02bbcc'')))
      = [0, 1, 2, 3, 4, 5, 6, 7, 8, 9, 10, 11, 12, 13, 14, 15, 16, 17, 18, 19, 20, 21, 22, 23, 24,
         25, 26, 27, 28, 29, 30, 31]"
    by (simp add: wordBytes_def toy_crypto_def parseInt_def stripSign_def stripPrefix_def
      isWhiteSpace_def digit16_def digitsValue_def truncQ_def)
  have h: "ab2hexstring (numbers (rev [0, 1, 2, 3, 4, 5, 6, 7, 8, 9, 10, 11, 12, 13, 14, 15, 16,
      17, 18, 19, 20, 21, 22, 23, 24, 25, 26, 27, 28, 29, 30, 31 :: byte]))
      = ''1f1e1d1c1b1a191817161514131211100f0e0d0c0b0a09080706050403020100''"
    by (simp add: ab2hexstring_def numbers_def byte2hex_def absstr_def hexstr.simps hexdigit_def)
  from getTransactionHash_reversed_double_SHA256 [OF toy_prints_hex(1), of toy_serialize ?tx]
  have "getTransactionHash toy_serialize toy_crypto ?tx
      = Inr ''1f1e1d1c1b1a191817161514131211100f0e0d0c0b0a09080706050403020100''"
    unfolding toy_serializeTransaction bindE.simps w h .
  with toy_prints_hex(1) show ?thesis by simp
qed

theorem signTransaction_appends_witness_witness:
  "serializeTransaction toy_serialize
      \<lparr>type = Num 128, version = Num 0, attributes = [], inputs = [''aa''], outputs = [''bb'', ''cc''],
       scripts = Some [], exclusiveData = ()\<rparr> False = Inr ''80000001aa02bbcc'' \<and>
   (\<exists>a. getAccountFromPrivateKey toy_crypto
           ''1111111111111111111111111111111111111111111111111111111111111111'' = Inr (Value a)) \<and>
   signTransaction toy_serialize toy_crypto
      \<lparr>type = Num 128, version = Num 0, attributes = [], inputs = [''aa''], outputs = [''bb'', ''cc''],
       scripts = Some [], exclusiveData = ()\<rparr>
      ''1111111111111111111111111111111111111111111111111111111111111111''
      = Inr \<lparr>type = Num 128, version = Num 0, attributes = [], inputs = [''aa''],
          outputs = [''bb'', ''cc''],
          scripts = Some [\<lparr>invocationScript = ''40'' @
              ''0000000000000000000000000000000000000000000000000000000000000001'' @
              ''0000000000000000000000000000000000000000000000000000000000000002'',
            verificationScript = createChainLineWalletScript
              (Some (ab2hexstring (numbers (2 # replicate 32 1))))\<rparr>],
          exclusiveData = ()\<rparr>"
proof -
  let ?tx = "\<lparr>type = Num 128, version = Num 0, attributes = [], inputs = [''aa''],
       outputs = [''bb'', ''cc''], scripts = Some [], exclusiveData = ()\<rparr> :: (string, unit) Transaction"
  let ?k = "''1111111111111111111111111111111111111111111111111111111111111111''"
  have "\<exists>a. getAccountFromPublicKey toy_crypto (ab2hexstring (numbers (getPublicKey toy_crypto ?k True)))
      (Some ?k) = Inr (Value a)"
    unfolding toy_getPublicKey
    by (rule getAccountFromPublicKey_succeeds [OF toy_prints_hex toy_verifyPublicKeyEncoded])
  then obtain a where a: "getAccountFromPrivateKey toy_crypto ?k = Inr (Value a)"
    by (auto simp: getAccountFromPrivateKey_def)
  have s: "elliptic_sign toy_crypto
      (toString toy_crypto (SHA256 toy_crypto (Hex_parse toy_crypto ''80000001aa02bbcc''))) ?k = (1, 2)"
    by (simp add: toy_crypto_def)
  have r: "(1::nat) < 2 ^ 256" "(2::nat) < 2 ^ 256" by simp_all
  have h: "ab2hexstring (numbers (bigEndian 32 1))
        = ''0000000000000000000000000000000000000000000000000000000000000001''"
      "ab2hexstring (numbers (bigEndian 32 2))
        = ''0000000000000000000000000000000000000000000000000000000000000002''"
  proof -
    have z: "bigEndian k 0 = replicate k 0" for k
      by (simp add: bigEndian_def map_replicate_const)
    have "bigEndian 32 1 = replicate 31 0 @ [1]" "bigEndian 32 2 = replicate 31 0 @ [2]"
      using bigEndian_Suc [of 31 1] bigEndian_Suc [of 31 2] by (simp_all add: z)
    then show "ab2hexstring (numbers (bigEndian 32 1))
        = ''0000000000000000000000000000000000000000000000000000000000000001''"
      "ab2hexstring (numbers (bigEndian 32 2))
        = ''0000000000000000000000000000000000000000000000000000000000000002''"
      by (simp_all add: ab2hexstring_def numbers_def byte2hex_def absstr_def
        hexstr.simps hexdigit_def replicate_numeral)
  qed
  from signTransaction_appends_witness [OF toy_serializeTransaction s r a]
  have "signTransaction toy_serialize toy_crypto ?tx ?k
      = Inr (?tx\<lparr>scripts := Some ((case scripts ?tx of None \<Rightarrow> [] | Some ws \<Rightarrow> ws) @
          [\<lparr>invocationScript = ''40'' @ ab2hexstring (numbers (bigEndian 32 1)) @
              ab2hexstring (numbers (bigEndian 32 2)),
            verificationScript = createChainLineWalletScript
              (Some (ab2hexstring (numbers (getPublicKey toy_crypto ?k True))))\<rparr>])\<rparr>)"
    by blast
  then have "signTransaction toy_serialize toy_crypto ?tx ?k
      = Inr \<lparr>type = Num 128, version = Num 0, attributes = [], inputs = [''aa''],
          outputs = [''bb'', ''cc''],
          scripts = Some [\<lparr>invocationScript = ''40'' @
              ''0000000000000000000000000000000000000000000000000000000000000001'' @
              ''0000000000000000000000000000000000000000000000000000000000000002'',
            verificationScript = createChainLineWalletScript
              (Some (ab2hexstring (numbers (2 # replicate 32 1))))\<rparr>],
          exclusiveData = ()\<rparr>"
    unfolding h toy_getPublicKey by simp
  with a toy_serializeTransaction show ?thesis by blast
qed

end
